theory Spec2Isabelle
  imports Complex_Main "HOL-Library.Log_Nat"
begin

section \<open>JavaScript numbers\<close>

text \<open>
  Every \<^verbatim>\<open>number\<close> of the source is an IEEE-754 double. Counters, lengths, timestamps
  and sums of integers are exact as long as they stay in the safe-integer range
  (magnitude at most \<open>2^53\<close>), so they are modelled by \<open>int\<close>. A division, and a
  multiplication or addition whose operand is not an integer, is rounded to the nearest
  double, ties to the even significand; such results are modelled by the rational
  number the double denotes. \<open>fl\<close> is that rounding, with 53 significant bits and an
  unbounded exponent (no overflow to infinity, no subnormals: the quotients of counts
  that occur here are far inside the normal range).
\<close>

definition pow2 :: "int \<Rightarrow> rat" where
  "pow2 k = (if 0 \<le> k then 2 ^ nat k else 1 / 2 ^ nat (- k))"

definition rne :: "rat \<Rightarrow> int" where
  \<comment> \<open>round to the nearest integer, ties to even\<close>
  "rne y = (let f = \<lfloor>y\<rfloor>; r = y - of_int f in
     if r < 1/2 then f else if 1/2 < r then f + 1 else if even f then f else f + 1)"

definition ilog2 :: "rat \<Rightarrow> int" where
  \<comment> \<open>for \<open>0 < x\<close>, the exponent \<open>e\<close> with \<open>2^e \<le> x < 2^(e+1)\<close>\<close>
  "ilog2 x = (case quotient_of x of (p, q) \<Rightarrow>
     (let k = bitlen p - bitlen q in if pow2 k \<le> x then k else k - 1))"

definition fl_pos :: "rat \<Rightarrow> rat" where
  "fl_pos x = (let s = 52 - ilog2 x in of_int (rne (x * pow2 s)) * pow2 (- s))"

definition fl :: "rat \<Rightarrow> rat" where
  "fl x = (if x = 0 then 0 else if x < 0 then - fl_pos (- x) else fl_pos x)"

definition fadd :: "rat \<Rightarrow> rat \<Rightarrow> rat" where
  "fadd x y = fl (x + y)"

definition fmul :: "rat \<Rightarrow> rat \<Rightarrow> rat" where
  "fmul x y = fl (x * y)"

definition fdiv :: "rat \<Rightarrow> rat \<Rightarrow> rat" where
  "fdiv x y = fl (x / y)"

definition js_round :: "rat \<Rightarrow> int" where
  \<comment> \<open>\<^verbatim>\<open>Math.round\<close>: nearest integer, a tie goes up\<close>
  "js_round x = \<lfloor>x + 1/2\<rfloor>"

definition js_ceil :: "rat \<Rightarrow> int" where
  \<comment> \<open>\<^verbatim>\<open>Math.ceil\<close>\<close>
  "js_ceil x = \<lceil>x\<rceil>"

definition toFixed1 :: "rat \<Rightarrow> rat" where
  \<comment> \<open>\<^verbatim>\<open>parseFloat(x.toFixed(1))\<close>: the decimal with one digit nearest to \<open>x\<close>
      (the larger one at a tie, on the magnitude), read back as a double\<close>
  "toFixed1 x = (if x < 0 then - fl (of_int \<lfloor>- x * 10 + 1/2\<rfloor> / 10)
                 else fl (of_int \<lfloor>x * 10 + 1/2\<rfloor> / 10))"

definition orZero :: "int option \<Rightarrow> int" where
  \<comment> \<open>\<^verbatim>\<open>v || 0\<close> on an optional number\<close>
  "orZero v = (case v of None \<Rightarrow> 0 | Some n \<Rightarrow> n)"

definition orOne :: "int option \<Rightarrow> int" where
  \<comment> \<open>\<^verbatim>\<open>v || 1\<close> on an optional number: an absent value and 0 are both falsy\<close>
  "orOne v = (case v of None \<Rightarrow> 1 | Some n \<Rightarrow> if n = 0 then 1 else n)"

definition truthy :: "int option \<Rightarrow> bool" where
  \<comment> \<open>an optional number used as a condition: present and not 0\<close>
  "truthy v = (case v of None \<Rightarrow> False | Some n \<Rightarrow> n \<noteq> 0)"


section \<open>Dates\<close>

text \<open>
  The source reads the local calendar of the runtime's time zone through \<^verbatim>\<open>Date\<close>. A
  zone is given by two functions: \<open>offsetAt\<close>, the offset from UTC (milliseconds east) in
  force at an instant, which daylight saving makes depend on the instant; and
  \<open>midnightOf\<close>, the instant at which a local calendar day begins. A date string as
  produced by \<^verbatim>\<open>toDateString()\<close> names one local calendar day; it is represented by the
  number of that day, counted from 1 January 1970. \<^verbatim>\<open>new Date(dateString).getTime()\<close> is
  the instant of local midnight of the day.
\<close>

type_synonym dateString = int

record zone =
  offsetAt :: "int \<Rightarrow> int"
  midnightOf :: "dateString \<Rightarrow> int"

definition msPerDay :: int where
  "msPerDay = 86400000"

definition toDateString :: "zone \<Rightarrow> int \<Rightarrow> dateString" where
  "toDateString tz t = (t + offsetAt tz t) div msPerDay"

definition dateGetTime :: "zone \<Rightarrow> dateString \<Rightarrow> int" where
  "dateGetTime tz d = midnightOf tz d"

definition fixedZone :: "int \<Rightarrow> zone" where
  \<comment> \<open>a zone without daylight saving, \<open>c\<close> milliseconds east of UTC\<close>
  "fixedZone c = \<lparr> offsetAt = (\<lambda>t. c), midnightOf = (\<lambda>d. d * msPerDay - c) \<rparr>"

definition usEastern2026 :: zone where
  \<comment> \<open>the rules of America/New_York for 2026: UTC-5, and UTC-4 from 8 March 2026,
      07:00 UTC, to 1 November 2026, 06:00 UTC; the midnights of the days 20521 (9 March)
      to 20758 (1 November) fall in daylight saving time\<close>
  "usEastern2026 =
     \<lparr> offsetAt = (\<lambda>t. if 1772953200000 \<le> t \<and> t < 1793512800000 then - 14400000 else - 18000000),
       midnightOf = (\<lambda>d. d * msPerDay + (if 20520 < d \<and> d \<le> 20758 then 14400000 else 18000000)) \<rparr>"

definition regularZone :: "zone \<Rightarrow> bool" where
  \<comment> \<open>consecutive local midnights are 23 to 25 hours apart\<close>
  "regularZone tz =
     (\<forall>d. 23 * 3600000 \<le> midnightOf tz (d + 1) - midnightOf tz d
          \<and> midnightOf tz (d + 1) - midnightOf tz d \<le> 25 * 3600000)"

definition civil_from_days :: "int \<Rightarrow> int \<times> int \<times> int" where
  \<comment> \<open>year, month (1 to 12) and day of the month of a day number, proleptic Gregorian\<close>
  "civil_from_days z0 =
     (let z = z0 + 719468;
          era = z div 146097;
          doe = z mod 146097;
          yoe = (doe - doe div 1460 + doe div 36524 - doe div 146096) div 365;
          y = yoe + era * 400;
          doy = doe - (365 * yoe + yoe div 4 - yoe div 100);
          mp = (5 * doy + 2) div 153;
          d = doy - (153 * mp + 2) div 5 + 1;
          m = (if mp < 10 then mp + 3 else mp - 9)
      in (if m \<le> 2 then y + 1 else y, m, d))"

definition getFullYear :: "zone \<Rightarrow> int \<Rightarrow> int" where
  "getFullYear tz t = fst (civil_from_days (toDateString tz t))"

definition getMonth :: "zone \<Rightarrow> int \<Rightarrow> int" where
  "getMonth tz t = fst (snd (civil_from_days (toDateString tz t))) - 1"

definition weekdayNarrow :: "dateString \<Rightarrow> string" where
  \<comment> \<open>\<^verbatim>\<open>toLocaleDateString('en-US', { weekday: 'narrow' })\<close> of a date on the local
      calendar day \<open>d\<close>; day 0 was a Thursday\<close>
  "weekdayNarrow d = [''S'', ''M'', ''T'', ''W'', ''T'', ''F'', ''S''] ! nat ((d + 4) mod 7)"


section \<open>Data model (types.ts)\<close>

datatype ActivityType =
  create_session | explain | summarize | quiz | flashcards | chat | quiz_complete | exam_complete

record StudyEvent =
  id_field :: string
  user_id :: string
  action_type :: ActivityType
  timestamp :: int
  text_length :: int
  topic_keywords :: "string list"
  quiz_total_questions :: "int option"
  quiz_correct_answers :: "int option"
  exam_score :: "int option"
  exam_total_marks :: "int option"
  exam_subject :: "string option"

record DayEntry =
  day :: string
  date :: dateString
  studied :: bool

record TopicEntry =
  topic :: string
  count :: int

record UserStats =
  totalSessions :: int
  sessionsToday :: int
  sessionsThisWeek :: int
  sessionsThisMonth :: int
  totalTimeMinutes :: int
  studyTimeToday :: int
  studyTimeThisWeek :: int
  quizzesGenerated :: int
  currentStreak :: int
  longestStreak :: int
  lastSevenDays :: "DayEntry list"
  quizAccuracy :: int
  totalQuizQuestions :: int
  totalQuizCorrect :: int
  totalQuizzesTaken :: int
  totalExamsTaken :: int
  examAverageAccuracy :: int
  examAverageScore :: rat
  examBestScore :: int
  topTopics :: "TopicEntry list"


section \<open>Stats calculation (services/storageService.ts)\<close>

definition calculateEventDuration :: "StudyEvent \<Rightarrow> int" where
  "calculateEventDuration event =
     (if action_type event = quiz_complete \<and> truthy (quiz_total_questions event)
      then orZero (quiz_total_questions event)
      else if action_type event = exam_complete \<and> truthy (exam_total_marks event)
      then js_ceil (fmul (of_int (orZero (exam_total_marks event))) (3/2))
      else
        (let duration = 1;
             duration = (if text_length event > 0
                         then duration + js_ceil (fdiv (of_int (text_length event)) 500)
                         else duration);
             duration = (if action_type event = quiz then duration + 2 else duration)
         in duration))"

definition eventDay :: "zone \<Rightarrow> StudyEvent \<Rightarrow> dateString" where
  \<comment> \<open>\<^verbatim>\<open>new Date(Number(e.timestamp)).toDateString()\<close>\<close>
  "eventDay tz e = toDateString tz (timestamp e)"

definition oneWeekAgo :: "int \<Rightarrow> int" where
  "oneWeekAgo now = now - 7 * 24 * 60 * 60 * 1000"

subsection \<open>1. Session counts\<close>

definition sessionCreates :: "StudyEvent list \<Rightarrow> StudyEvent list" where
  "sessionCreates events = filter (\<lambda>e. action_type e = create_session) events"

definition sessionsToday_of :: "zone \<Rightarrow> int \<Rightarrow> StudyEvent list \<Rightarrow> int" where
  "sessionsToday_of tz now events =
     int (length (filter (\<lambda>e. eventDay tz e = toDateString tz now) (sessionCreates events)))"

definition sessionsThisWeek_of :: "int \<Rightarrow> StudyEvent list \<Rightarrow> int" where
  "sessionsThisWeek_of now events =
     int (length (filter (\<lambda>e. timestamp e > oneWeekAgo now) (sessionCreates events)))"

definition sessionsThisMonth_of :: "zone \<Rightarrow> int \<Rightarrow> StudyEvent list \<Rightarrow> int" where
  "sessionsThisMonth_of tz now events =
     int (length (filter (\<lambda>e. getMonth tz (timestamp e) = getMonth tz now
                              \<and> getFullYear tz (timestamp e) = getFullYear tz now)
                    (sessionCreates events)))"

subsection \<open>2. Study time\<close>

definition studyTimeStep :: "zone \<Rightarrow> int \<Rightarrow> StudyEvent \<Rightarrow> int \<times> int \<times> int \<Rightarrow> int \<times> int \<times> int" where
  "studyTimeStep tz now e acc =
     (case acc of (totalTime, timeToday, timeThisWeek) \<Rightarrow>
        (let duration = calculateEventDuration e
         in (totalTime + duration,
             (if eventDay tz e = toDateString tz now then timeToday + duration else timeToday),
             (if timestamp e > oneWeekAgo now then timeThisWeek + duration else timeThisWeek))))"

definition studyTime :: "zone \<Rightarrow> int \<Rightarrow> StudyEvent list \<Rightarrow> int \<times> int \<times> int" where
  "studyTime tz now events = fold (studyTimeStep tz now) events (0, 0, 0)"

subsection \<open>3. Quizzes\<close>

definition quizCompletions :: "StudyEvent list \<Rightarrow> StudyEvent list" where
  "quizCompletions events = filter (\<lambda>a. action_type a = quiz_complete) events"

definition quizStep :: "StudyEvent \<Rightarrow> int \<times> int \<Rightarrow> int \<times> int" where
  "quizStep q acc =
     (case acc of (totalQuestions, totalCorrect) \<Rightarrow>
        (totalQuestions + orZero (quiz_total_questions q),
         totalCorrect + orZero (quiz_correct_answers q)))"

definition quizTotals :: "StudyEvent list \<Rightarrow> int \<times> int" where
  "quizTotals events = fold quizStep (quizCompletions events) (0, 0)"

definition quizAccuracy_of :: "int \<times> int \<Rightarrow> int" where
  "quizAccuracy_of totals =
     (case totals of (totalQuestions, totalCorrect) \<Rightarrow>
        if totalQuestions > 0
        then js_round (fmul (fdiv (of_int totalCorrect) (of_int totalQuestions)) 100)
        else 0)"

subsection \<open>4. Exams\<close>

definition examCompletions :: "StudyEvent list \<Rightarrow> StudyEvent list" where
  "examCompletions events = filter (\<lambda>a. action_type a = exam_complete) events"

definition examAcc :: "StudyEvent \<Rightarrow> rat" where
  "examAcc e =
     (let score = orZero (exam_score e); total = orOne (exam_total_marks e)
      in fmul (fdiv (of_int score) (of_int total)) 100)"

definition examStep :: "StudyEvent \<Rightarrow> int \<times> rat \<times> int \<Rightarrow> int \<times> rat \<times> int" where
  "examStep e acc =
     (case acc of (totalScore, accuracySum, bestScore) \<Rightarrow>
        (let score = orZero (exam_score e)
         in (totalScore + score,
             fadd accuracySum (examAcc e),
             (if score > bestScore then score else bestScore))))"

definition examTotals :: "StudyEvent list \<Rightarrow> int \<times> rat \<times> int" where
  "examTotals events = fold examStep (examCompletions events) (0, 0, 0)"

definition examAverageAccuracy_of :: "StudyEvent list \<Rightarrow> int" where
  "examAverageAccuracy_of events =
     (let totalExamsTaken = int (length (examCompletions events))
      in if totalExamsTaken > 0
         then js_round (fdiv (fst (snd (examTotals events))) (of_int totalExamsTaken))
         else 0)"

definition examAverageScore_of :: "StudyEvent list \<Rightarrow> rat" where
  "examAverageScore_of events =
     (let totalExamsTaken = int (length (examCompletions events))
      in if totalExamsTaken > 0
         then toFixed1 (fdiv (of_int (fst (examTotals events))) (of_int totalExamsTaken))
         else 0)"

subsection \<open>5. Streaks\<close>

fun addAll :: "'a list \<Rightarrow> 'a list \<Rightarrow> 'a list" where
  "addAll seen [] = seen"
| "addAll seen (x # xs) = addAll (if x \<in> set seen then seen else seen @ [x]) xs"

definition setFrom :: "'a list \<Rightarrow> 'a list" where
  \<comment> \<open>\<^verbatim>\<open>Array.from(new Set(xs))\<close>: the distinct elements in the order of first insertion\<close>
  "setFrom xs = addAll [] xs"

definition uniqueDates_of :: "zone \<Rightarrow> StudyEvent list \<Rightarrow> dateString list" where
  \<comment> \<open>\<^verbatim>\<open>sort\<close> is stable; the comparator is the difference of the two midnights\<close>
  "uniqueDates_of tz events =
     (let dates = map (eventDay tz) events
      in sort_key (dateGetTime tz) (setFrom dates))"

definition diffDays :: "zone \<Rightarrow> dateString \<Rightarrow> dateString \<Rightarrow> rat" where
  "diffDays tz prevDate currDate =
     fdiv (of_int (dateGetTime tz currDate - dateGetTime tz prevDate)) (of_int (1000 * 3600 * 24))"

function longestLoop :: "zone \<Rightarrow> dateString list \<Rightarrow> nat \<Rightarrow> int \<times> int \<Rightarrow> int \<times> int" where
  "longestLoop tz uniqueDates i (tempStreak, longest) =
     (if i < length uniqueDates then
        (let tempStreak' =
               (if i = 0 then 1
                else if diffDays tz (uniqueDates ! (i - 1)) (uniqueDates ! i) \<le> 3/2
                     then tempStreak + 1 else 1);
             longest' = (if tempStreak' > longest then tempStreak' else longest)
         in longestLoop tz uniqueDates (i + 1) (tempStreak', longest'))
      else (tempStreak, longest))"
  by pat_completeness auto
termination
  by (relation "measure (\<lambda>(tz, uniqueDates, i, st). length uniqueDates - i)") auto

function currentLoop :: "zone \<Rightarrow> dateString list \<Rightarrow> nat \<Rightarrow> int \<Rightarrow> int" where
  "currentLoop tz uniqueDates i streak =
     (if i > 0 then
        (if diffDays tz (uniqueDates ! (i - 1)) (uniqueDates ! i) \<le> 3/2
         then currentLoop tz uniqueDates (i - 1) (streak + 1)
         else streak)
      else streak)"
  by pat_completeness auto
termination
  by (relation "measure (\<lambda>(tz, uniqueDates, i, c). i)") auto

declare longestLoop.simps [simp del] currentLoop.simps [simp del]

definition longestStreak_of :: "zone \<Rightarrow> StudyEvent list \<Rightarrow> int" where
  "longestStreak_of tz events =
     (let uniqueDates = uniqueDates_of tz events
      in if length uniqueDates > 0 then snd (longestLoop tz uniqueDates 0 (0, 0)) else 0)"

definition currentStreak_of :: "zone \<Rightarrow> int \<Rightarrow> StudyEvent list \<Rightarrow> int" where
  "currentStreak_of tz now events =
     (let uniqueDates = uniqueDates_of tz events
      in if length uniqueDates > 0 then
           (let today = toDateString tz now;
                yesterday = toDateString tz (now - 86400000);
                lastActive = uniqueDates ! (length uniqueDates - 1)
            in if lastActive = today \<or> lastActive = yesterday
               then currentLoop tz uniqueDates (length uniqueDates - 1) 1
               else 0)
         else 0)"

subsection \<open>6. Last 7 days\<close>

definition dayEntry :: "zone \<Rightarrow> int \<Rightarrow> StudyEvent list \<Rightarrow> int \<Rightarrow> DayEntry" where
  \<comment> \<open>the loop body for \<open>i\<close>: \<^verbatim>\<open>d.setDate(d.getDate() - i)\<close> works on the local calendar
      fields, so \<open>d\<close> is a date on the calendar day \<open>i\<close> days before today, also across a
      change of the offset\<close>
  "dayEntry tz now events i =
     (let d = toDateString tz now - i;
          dateStr = d;
          dayLabel = weekdayNarrow d;
          studied = list_ex (\<lambda>e. eventDay tz e = dateStr) events
      in \<lparr>day = dayLabel, date = dateStr, studied = studied\<rparr>)"

definition lastSevenDays_of :: "zone \<Rightarrow> int \<Rightarrow> StudyEvent list \<Rightarrow> DayEntry list" where
  "lastSevenDays_of tz now events = map (dayEntry tz now events) [6, 5, 4, 3, 2, 1, 0]"

subsection \<open>7. Topics\<close>

text \<open>
  Strings are taken as ASCII text. The object \<^verbatim>\<open>topicCounts\<close> is the list of its own
  properties in the order of their creation; \<^verbatim>\<open>Object.entries\<close> enumerates the keys
  that are array indices first, in ascending numeric order, and then the other keys in
  the order of creation. A key that names a property inherited from
  \<^verbatim>\<open>Object.prototype\<close> (after lowercasing: \<^verbatim>\<open>constructor\<close>, \<^verbatim>\<open>__proto__\<close>) does not
  get a numeric count in the source and is outside this model (\<open>ownKey\<close>).
\<close>

definition isSpace :: "char \<Rightarrow> bool" where
  "isSpace c = ((of_char c :: int) \<in> {9, 10, 11, 12, 13, 32})"

definition trim :: "string \<Rightarrow> string" where
  "trim s = rev (dropWhile isSpace (rev (dropWhile isSpace s)))"

definition lowerChar :: "char \<Rightarrow> char" where
  "lowerChar c = (if 65 \<le> (of_char c :: int) \<and> (of_char c :: int) \<le> 90
                  then char_of ((of_char c :: int) + 32) else c)"

definition toLowerCase :: "string \<Rightarrow> string" where
  "toLowerCase s = map lowerChar s"

definition normKey :: "string \<Rightarrow> string" where
  \<comment> \<open>\<^verbatim>\<open>keyword.trim().toLowerCase()\<close>\<close>
  "normKey keyword = toLowerCase (trim keyword)"

fun bump :: "(string \<times> int) list \<Rightarrow> string \<Rightarrow> (string \<times> int) list" where
  \<comment> \<open>\<^verbatim>\<open>topicCounts[k] = (topicCounts[k] || 0) + 1\<close>\<close>
  "bump [] k = [(k, 0 + 1)]"
| "bump ((k', c) # rest) k = (if k' = k then (k', c + 1) # rest else (k', c) # bump rest k)"

definition addKeyword :: "string \<Rightarrow> (string \<times> int) list \<Rightarrow> (string \<times> int) list" where
  "addKeyword keyword counts = (let k = normKey keyword in if k \<noteq> [] then bump counts k else counts)"

definition topicCounts :: "StudyEvent list \<Rightarrow> (string \<times> int) list" where
  "topicCounts events = fold (\<lambda>e counts. fold addKeyword (topic_keywords e) counts) events []"

definition isDigit :: "char \<Rightarrow> bool" where
  "isDigit c = (48 \<le> (of_char c :: int) \<and> (of_char c :: int) \<le> 57)"

definition digitsVal :: "string \<Rightarrow> int" where
  "digitsVal s = fold (\<lambda>c n. 10 * n + ((of_char c :: int) - 48)) s 0"

definition isArrayIndex :: "string \<Rightarrow> bool" where
  \<comment> \<open>the canonical decimal numeral of an integer from 0 to \<open>2^32 - 2\<close>\<close>
  "isArrayIndex k = (k \<noteq> [] \<and> list_all isDigit k \<and> (k = ''0'' \<or> hd k \<noteq> CHR ''0'')
                     \<and> digitsVal k < 2 ^ 32 - 1)"

definition ownKey :: "string \<Rightarrow> bool" where
  "ownKey k = (k \<noteq> ''constructor'' \<and> k \<noteq> ''__proto__'')"

definition objectEntries :: "(string \<times> int) list \<Rightarrow> (string \<times> int) list" where
  "objectEntries obj =
     sort_key (\<lambda>p. digitsVal (fst p)) (filter (\<lambda>p. isArrayIndex (fst p)) obj)
     @ filter (\<lambda>p. \<not> isArrayIndex (fst p)) obj"

definition toTopicEntry :: "string \<times> int \<Rightarrow> TopicEntry" where
  "toTopicEntry p = (case p of (t, c) \<Rightarrow> \<lparr>topic = t, count = c\<rparr>)"

definition topTopics_of :: "StudyEvent list \<Rightarrow> TopicEntry list" where
  \<comment> \<open>the comparator \<^verbatim>\<open>b.count - a.count\<close> sorts by descending count; the sort is stable\<close>
  "topTopics_of events =
     take 5 (sort_key (\<lambda>a. - count a) (map toTopicEntry (objectEntries (topicCounts events))))"

subsection \<open>The result\<close>

definition getUserStats :: "zone \<Rightarrow> int \<Rightarrow> StudyEvent list \<Rightarrow> UserStats" where
  \<comment> \<open>\<open>events\<close> is the result of \<^verbatim>\<open>getActivities()\<close>, \<open>now\<close> the clock reading\<close>
  "getUserStats tz now events =
     \<lparr> totalSessions = int (length (sessionCreates events)),
       sessionsToday = sessionsToday_of tz now events,
       sessionsThisWeek = sessionsThisWeek_of now events,
       sessionsThisMonth = sessionsThisMonth_of tz now events,
       totalTimeMinutes = fst (studyTime tz now events),
       studyTimeToday = fst (snd (studyTime tz now events)),
       studyTimeThisWeek = snd (snd (studyTime tz now events)),
       quizzesGenerated = int (length (filter (\<lambda>a. action_type a = quiz) events)),
       currentStreak = currentStreak_of tz now events,
       longestStreak = longestStreak_of tz events,
       lastSevenDays = lastSevenDays_of tz now events,
       quizAccuracy = quizAccuracy_of (quizTotals events),
       totalQuizQuestions = fst (quizTotals events),
       totalQuizCorrect = snd (quizTotals events),
       totalQuizzesTaken = int (length (quizCompletions events)),
       totalExamsTaken = int (length (examCompletions events)),
       examAverageAccuracy = examAverageAccuracy_of events,
       examAverageScore = examAverageScore_of events,
       examBestScore = snd (snd (examTotals events)),
       topTopics = topTopics_of events \<rparr>"


section \<open>The specification's formulations\<close>

text \<open>
  The definitions of this section follow the wording of the specification, not the
  code; the theorems below compare them with \<open>getUserStats\<close>.
\<close>

definition plainEvent :: "ActivityType \<Rightarrow> int \<Rightarrow> StudyEvent" where
  \<comment> \<open>an event as \<^verbatim>\<open>logActivity(type)\<close> writes it at time \<open>t\<close>: no text, no extra data\<close>
  "plainEvent a t =
     \<lparr> id_field = [], user_id = [], action_type = a, timestamp = t, text_length = 0,
       topic_keywords = [], quiz_total_questions = None, quiz_correct_answers = None,
       exam_score = None, exam_total_marks = None, exam_subject = None \<rparr>"

definition activeDays :: "zone \<Rightarrow> StudyEvent list \<Rightarrow> dateString set" where
  \<comment> \<open>the calendar days on which at least one event of any type occurred\<close>
  "activeDays tz events = eventDay tz ` set events"

definition spec_sortedDays :: "zone \<Rightarrow> StudyEvent list \<Rightarrow> dateString list" where
  "spec_sortedDays tz events = sorted_list_of_set (activeDays tz events)"

definition withinTolerance :: "dateString \<Rightarrow> dateString \<Rightarrow> bool" where
  \<comment> \<open>two entries differ by at most 1.5 days\<close>
  "withinTolerance prevDate currDate = ((of_int (currDate - prevDate) :: rat) \<le> 3/2)"

fun spec_scan :: "dateString \<Rightarrow> int \<Rightarrow> int \<Rightarrow> dateString list \<Rightarrow> int" where
  \<comment> \<open>previous entry, running counter, maximum seen so far, entries still to scan\<close>
  "spec_scan prevDate run best [] = best"
| "spec_scan prevDate run best (d # ds) =
     (let run' = (if withinTolerance prevDate d then run + 1 else 1)
      in spec_scan d run' (max best run') ds)"

definition spec_longestStreak :: "zone \<Rightarrow> StudyEvent list \<Rightarrow> int" where
  "spec_longestStreak tz events =
     (case spec_sortedDays tz events of [] \<Rightarrow> 0 | d # ds \<Rightarrow> spec_scan d 1 1 ds)"

fun spec_walkBack :: "dateString list \<Rightarrow> int" where
  \<comment> \<open>on the sorted days read from the end: the entries counted before the first gap\<close>
  "spec_walkBack [] = 0"
| "spec_walkBack [d] = 1"
| "spec_walkBack (d # p # ds) = (if withinTolerance p d then 1 + spec_walkBack (p # ds) else 1)"

definition spec_inTrailingWeek :: "int \<Rightarrow> StudyEvent \<Rightarrow> bool" where
  \<comment> \<open>a session inside the trailing 7 x 24 hour window that ends at \<open>now\<close>\<close>
  "spec_inTrailingWeek now e =
     (action_type e = create_session
      \<and> now - 7 * 24 * 3600 * 1000 < timestamp e \<and> timestamp e \<le> now)"

definition quizSumTotal :: "StudyEvent list \<Rightarrow> int" where
  \<comment> \<open>the sum of \<open>quizTotalQuestions\<close> over the \<open>quiz_complete\<close> events, a missing field counting 0\<close>
  "quizSumTotal events =
     (\<Sum>e\<leftarrow>filter (\<lambda>e. action_type e = quiz_complete) events. orZero (quiz_total_questions e))"

definition quizSumCorrect :: "StudyEvent list \<Rightarrow> int" where
  "quizSumCorrect events =
     (\<Sum>e\<leftarrow>filter (\<lambda>e. action_type e = quiz_complete) events. orZero (quiz_correct_answers e))"

definition spec_round :: "rat \<Rightarrow> int" where
  \<comment> \<open>rounding of the exact value to the nearest integer, a tie going up\<close>
  "spec_round x = \<lfloor>x + 1/2\<rfloor>"

definition examInRange :: "StudyEvent \<Rightarrow> bool" where
  \<comment> \<open>the score of an exam lies between 0 and its total marks (a missing score counting 0,
      a missing or zero total counting 1)\<close>
  "examInRange e =
     (0 \<le> orZero (exam_score e) \<and> orZero (exam_score e) \<le> orOne (exam_total_marks e))"

definition allKeywords :: "StudyEvent list \<Rightarrow> string list" where
  \<comment> \<open>the trimmed, lowercased, non-empty keywords in the order the events are scanned\<close>
  "allKeywords events = filter (\<lambda>k. k \<noteq> []) (map normKey (concat (map topic_keywords events)))"

definition firstSeen :: "string list \<Rightarrow> string list" where
  \<comment> \<open>the distinct keywords, ordered by the position of their first occurrence\<close>
  "firstSeen ks = rev (remdups (rev ks))"

definition counted :: "string list \<Rightarrow> (string \<times> int) list" where
  \<comment> \<open>the distinct keywords in first-seen order, each with its number of occurrences\<close>
  "counted ks = map (\<lambda>k. (k, int (count_list ks k))) (firstSeen ks)"

definition enumerated :: "string list \<Rightarrow> string list" where
  \<comment> \<open>the distinct keywords in the order in which the keys of an object are listed: the
      array indices in ascending numeric order, then the others in first-seen order\<close>
  "enumerated ks =
     sort_key digitsVal (filter isArrayIndex (firstSeen ks))
     @ filter (\<lambda>k. \<not> isArrayIndex k) (firstSeen ks)"

definition spec_counted :: "string list \<Rightarrow> TopicEntry list" where
  "spec_counted ks = map (\<lambda>k. \<lparr>topic = k, count = int (count_list ks k)\<rparr>) (firstSeen ks)"

definition spec_topTopics :: "StudyEvent list \<Rightarrow> TopicEntry list" where
  \<comment> \<open>descending by count, equal counts in first-seen order, the first five\<close>
  "spec_topTopics events =
     take 5 (sort_key (\<lambda>a. - count a) (spec_counted (allKeywords events)))"

section \<open>Properties of the rounding\<close>

lemma pow2_powi: "pow2 k = 2 powi k"
  by (simp add: pow2_def power_int_def field_simps)

lemma pow2_pos [simp]: "0 < pow2 k"
  by (simp add: pow2_powi)

lemma pow2_add: "pow2 (a + b) = pow2 a * pow2 b"
  by (simp add: pow2_powi power_int_add)

lemma pow2_minus: "pow2 (- a) = 1 / pow2 a"
  by (simp add: pow2_powi power_int_minus field_simps)

lemma pow2_diff: "pow2 (a - b) = pow2 a / pow2 b"
  by (simp add: pow2_powi power_int_diff)

lemma pow2_mono: "a \<le> b \<Longrightarrow> pow2 a \<le> pow2 b"
  by (simp add: pow2_powi power_int_increasing)

lemma pow2_nat: "pow2 (int n) = 2 ^ n"
  by (simp add: pow2_def)

lemma pow2_0 [simp]: "pow2 0 = 1"
  by (simp add: pow2_def)

lemma pow2_mult: "a + b = c \<Longrightarrow> pow2 a * pow2 b = pow2 c"
  by (simp add: pow2_add[symmetric])

lemma pow2_cancel: "a + b = 0 \<Longrightarrow> x * pow2 a * pow2 b = x"
  by (simp add: mult.assoc pow2_mult)

lemma bitlen_pow2_bounds:
  assumes "0 < p"
  shows "pow2 (bitlen p - 1) \<le> of_int p" "of_int p < pow2 (bitlen p)"
proof -
  have b: "2 ^ nat (bitlen p - 1) \<le> p" "p < 2 ^ nat (bitlen p)"
    using bitlen_bounds[OF assms] by auto
  have b1: "1 \<le> bitlen p"
    using assms bitlen_eq_zero_iff[of p] bitlen_nonneg[of p] by linarith
  have "pow2 (bitlen p - 1) = of_int (2 ^ nat (bitlen p - 1))"
    using b1 by (simp add: pow2_def)
  then show "pow2 (bitlen p - 1) \<le> of_int p"
    using b(1) by (metis of_int_le_iff)
  have "pow2 (bitlen p) = of_int (2 ^ nat (bitlen p))"
    using b1 by (simp add: pow2_def)
  then show "of_int p < pow2 (bitlen p)"
    using b(2) by (metis of_int_less_iff)
qed

lemma ilog2_bounds:
  assumes "0 < x"
  shows "pow2 (ilog2 x) \<le> x \<and> x < pow2 (ilog2 x + 1)"
proof -
  obtain p q where pq: "quotient_of x = (p, q)" by (cases "quotient_of x")
  have q: "0 < q" using pq by (rule quotient_of_denom_pos)
  have x: "x = of_int p / of_int q" using pq by (rule quotient_of_div)
  have p: "0 < p" using assms q x by (simp add: zero_less_divide_iff)
  define bp bq where "bp = bitlen p" and "bq = bitlen q"
  note P = bitlen_pow2_bounds[OF p, folded bp_def]
  note Q = bitlen_pow2_bounds[OF q, folded bq_def]
  have qpos: "0 < (of_int q :: rat)" using q by simp
  have "x * of_int q < pow2 (bp - bq + 1) * of_int q"
  proof -
    have "x * of_int q = of_int p" using x qpos by simp
    also have "\<dots> < pow2 bp" by (rule P)
    also have "\<dots> = pow2 (bp - bq + 1) * pow2 (bq - 1)"
      by (simp add: pow2_add[symmetric])
    also have "\<dots> \<le> pow2 (bp - bq + 1) * of_int q"
      using Q(1) by (simp add: mult_left_mono)
    finally show ?thesis .
  qed
  then have up: "x < pow2 (bp - bq + 1)"
    using qpos by simp
  have "pow2 (bp - bq - 1) * of_int q \<le> x * of_int q"
  proof -
    have "pow2 (bp - bq - 1) * of_int q \<le> pow2 (bp - bq - 1) * pow2 bq"
      using Q(2) by (simp add: mult_left_mono)
    also have "\<dots> = pow2 (bp - 1)"
      by (simp add: pow2_add[symmetric])
    also have "\<dots> \<le> of_int p" by (rule P)
    also have "\<dots> = x * of_int q" using x qpos by simp
    finally show ?thesis .
  qed
  then have lo: "pow2 (bp - bq - 1) \<le> x"
    using qpos by simp
  show ?thesis
    using up lo pq by (auto simp: ilog2_def Let_def bp_def bq_def)
qed

lemma pow2_strict_mono: "a < b \<Longrightarrow> pow2 a < pow2 b"
  by (simp add: pow2_powi power_int_strict_increasing)

lemma pow2_less_iff: "pow2 a < pow2 b \<longleftrightarrow> a < b"
  using pow2_mono[of b a] pow2_strict_mono[of a b] by (auto simp: not_le[symmetric])

lemma ilog2_unique:
  assumes "pow2 e \<le> x" "x < pow2 (e + 1)"
  shows "ilog2 x = e"
proof -
  have x: "0 < x" using assms(1) pow2_pos[of e] by linarith
  note B = ilog2_bounds[OF x]
  have "pow2 e < pow2 (ilog2 x + 1)" using assms B by linarith
  then have 1: "e < ilog2 x + 1"
    by (simp only: pow2_less_iff)
  have "pow2 (ilog2 x) < pow2 (e + 1)" using assms B by linarith
  then have 2: "ilog2 x < e + 1"
    by (simp only: pow2_less_iff)
  from 1 2 show ?thesis by linarith
qed

lemma rne_of_int [simp]: "rne (of_int n) = n"
  by (simp add: rne_def)

lemma rne_floor: "\<lfloor>y\<rfloor> \<le> rne y \<and> rne y \<le> \<lfloor>y\<rfloor> + 1"
  by (simp add: rne_def Let_def)

lemma rne_err: "\<bar>of_int (rne y) - y\<bar> \<le> 1/2"
proof -
  have f: "of_int \<lfloor>y\<rfloor> \<le> y" "y < of_int \<lfloor>y\<rfloor> + 1"
    by linarith+
  show ?thesis
    using f by (simp add: rne_def Let_def abs_le_iff)
qed

lemma rne_mono:
  assumes "x \<le> y"
  shows "rne x \<le> rne y"
proof (cases "\<lfloor>x\<rfloor> = \<lfloor>y\<rfloor>")
  case True
  then show ?thesis
    using assms by (auto simp: rne_def Let_def)
next
  case False
  then have "\<lfloor>x\<rfloor> + 1 \<le> \<lfloor>y\<rfloor>"
    using floor_mono[OF assms] by linarith
  then show ?thesis
    using rne_floor[of x] rne_floor[of y] by linarith
qed

lemma rne_ge_int: "of_int n \<le> y \<Longrightarrow> n \<le> rne y"
  using rne_mono[of "of_int n" y] by simp

lemma rne_le_int: "y \<le> of_int n \<Longrightarrow> rne y \<le> n"
  using rne_mono[of y "of_int n"] by simp


lemma scaled_bounds:
  assumes "0 < x"
  shows "pow2 52 \<le> x * pow2 (52 - ilog2 x)" "x * pow2 (52 - ilog2 x) < pow2 53"
proof -
  note B = ilog2_bounds[OF assms]
  have "pow2 52 = pow2 (ilog2 x) * pow2 (52 - ilog2 x)"
    by (rule pow2_mult[symmetric]) simp
  also have "\<dots> \<le> x * pow2 (52 - ilog2 x)"
    using B by (simp add: mult_right_mono)
  finally show "pow2 52 \<le> x * pow2 (52 - ilog2 x)" .
  have "x * pow2 (52 - ilog2 x) < pow2 (ilog2 x + 1) * pow2 (52 - ilog2 x)"
    using B by (simp add: mult_strict_right_mono)
  also have "\<dots> = pow2 53"
    by (rule pow2_mult) simp
  finally show "x * pow2 (52 - ilog2 x) < pow2 53" .
qed

lemma pow2_52: "pow2 52 = of_int (2 ^ 52)" and pow2_53: "pow2 53 = of_int (2 ^ 53)"
  by (simp_all add: pow2_def)

lemma rne_scaled_bounds:
  assumes "0 < x"
  shows "2 ^ 52 \<le> rne (x * pow2 (52 - ilog2 x))" "rne (x * pow2 (52 - ilog2 x)) \<le> 2 ^ 53"
proof -
  note S = scaled_bounds[OF assms]
  show "2 ^ 52 \<le> rne (x * pow2 (52 - ilog2 x))"
    using S(1) unfolding pow2_52 by (rule rne_ge_int)
  have "x * pow2 (52 - ilog2 x) \<le> of_int (2 ^ 53)"
    using S(2) unfolding pow2_53 by simp
  then show "rne (x * pow2 (52 - ilog2 x)) \<le> 2 ^ 53"
    by (rule rne_le_int)
qed

lemma fl_pos_bounds:
  assumes "0 < x"
  shows "pow2 (ilog2 x) \<le> fl_pos x" "fl_pos x \<le> pow2 (ilog2 x + 1)"
proof -
  let ?s = "52 - ilog2 x"
  note R = rne_scaled_bounds[OF assms]
  have "pow2 (ilog2 x) = pow2 52 * pow2 (- ?s)"
    by (rule pow2_mult[symmetric]) simp
  also have "\<dots> \<le> of_int (rne (x * pow2 ?s)) * pow2 (- ?s)"
    using R(1) unfolding pow2_52 by (intro mult_right_mono) (simp_all add: less_imp_le)
  finally show "pow2 (ilog2 x) \<le> fl_pos x"
    by (simp add: fl_pos_def Let_def)
  have "of_int (rne (x * pow2 ?s)) * pow2 (- ?s) \<le> pow2 53 * pow2 (- ?s)"
    using R(2) unfolding pow2_53 by (intro mult_right_mono) (simp_all add: less_imp_le)
  also have "\<dots> = pow2 (ilog2 x + 1)"
    by (rule pow2_mult) simp
  finally show "fl_pos x \<le> pow2 (ilog2 x + 1)"
    by (simp add: fl_pos_def Let_def)
qed

lemma fl_pos_pos: "0 < x \<Longrightarrow> 0 < fl_pos x"
  using fl_pos_bounds(1)[of x] pow2_pos[of "ilog2 x"] by linarith

lemma ilog2_mono:
  assumes "0 < x" "x \<le> y"
  shows "ilog2 x \<le> ilog2 y"
proof -
  have y: "0 < y" using assms by linarith
  have "pow2 (ilog2 x) < pow2 (ilog2 y + 1)"
    using ilog2_bounds[OF assms(1)] ilog2_bounds[OF y] assms(2) by linarith
  then have "ilog2 x < ilog2 y + 1" by (simp only: pow2_less_iff)
  then show ?thesis by linarith
qed

lemma fl_pos_mono:
  assumes "0 < x" "x \<le> y"
  shows "fl_pos x \<le> fl_pos y"
proof (cases "ilog2 x = ilog2 y")
  case True
  have "rne (x * pow2 (52 - ilog2 y)) \<le> rne (y * pow2 (52 - ilog2 y))"
    using assms(2) by (intro rne_mono mult_right_mono) (simp_all add: less_imp_le)
  then have "of_int (rne (x * pow2 (52 - ilog2 y))) * pow2 (- (52 - ilog2 y))
        \<le> (of_int (rne (y * pow2 (52 - ilog2 y))) :: rat) * pow2 (- (52 - ilog2 y))"
    by (intro mult_right_mono) (simp_all add: less_imp_le)
  then show ?thesis
    by (simp add: fl_pos_def Let_def True)
next
  case False
  have y: "0 < y" using assms by linarith
  from False ilog2_mono[OF assms] have "ilog2 x + 1 \<le> ilog2 y" by linarith
  then have "pow2 (ilog2 x + 1) \<le> pow2 (ilog2 y)" by (rule pow2_mono)
  then show ?thesis
    using fl_pos_bounds(2)[OF assms(1)] fl_pos_bounds(1)[OF y] by linarith
qed

lemma fl_0 [simp]: "fl 0 = 0"
  by (simp add: fl_def)

lemma fl_minus: "fl (- x) = - fl x"
  by (simp add: fl_def)

lemma fl_pos_eq: "0 < x \<Longrightarrow> fl x = fl_pos x"
  by (simp add: fl_def)

lemma fl_positive: "0 < x \<Longrightarrow> 0 < fl x"
  by (simp add: fl_pos_eq fl_pos_pos)

lemma fl_nonneg: "0 \<le> x \<Longrightarrow> 0 \<le> fl x"
  using fl_positive[of x] by (cases "x = 0") (simp_all add: less_imp_le)

lemma fl_mono:
  assumes "x \<le> y"
  shows "fl x \<le> fl y"
proof -
  consider "0 < x" | "x \<le> 0" "0 \<le> y" | "y < 0" by linarith
  then show ?thesis
  proof cases
    case 1
    then have "0 < y" using assms by linarith
    with 1 assms show ?thesis by (simp add: fl_pos_eq fl_pos_mono)
  next
    case 2
    have "fl x \<le> 0" using fl_nonneg[of "- x"] 2(1) by (simp add: fl_minus)
    moreover have "0 \<le> fl y" using 2(2) by (rule fl_nonneg)
    ultimately show ?thesis by linarith
  next
    case 3
    have "fl_pos (- y) \<le> fl_pos (- x)"
      using 3 assms by (intro fl_pos_mono) simp_all
    moreover have "fl x = - fl_pos (- x)" "fl y = - fl_pos (- y)"
      using 3 assms by (simp_all add: fl_def)
    ultimately show ?thesis by simp
  qed
qed

lemma fl_pos_err:
  assumes "0 < x"
  shows "\<bar>fl_pos x - x\<bar> \<le> x / 2 ^ 53"
proof -
  let ?s = "52 - ilog2 x"
  let ?y = "x * pow2 ?s"
  have "?y * pow2 (- ?s) = x"
    by (rule pow2_cancel) simp
  then have "fl_pos x - x = (of_int (rne ?y) - ?y) * pow2 (- ?s)"
    unfolding fl_pos_def Let_def by (simp only: left_diff_distrib)
  then have "\<bar>fl_pos x - x\<bar> = \<bar>of_int (rne ?y) - ?y\<bar> * pow2 (- ?s)"
    by (simp add: abs_mult less_imp_le)
  also have "\<dots> \<le> 1/2 * pow2 (- ?s)"
    by (intro mult_right_mono rne_err) (simp add: less_imp_le)
  also have "\<dots> = pow2 (ilog2 x) / 2 ^ 53"
  proof -
    have "pow2 (- ?s) = pow2 (ilog2 x) * pow2 (- 52)" by (rule pow2_mult[symmetric]) simp
    then show ?thesis by (simp add: pow2_def)
  qed
  also have "\<dots> \<le> x / 2 ^ 53"
    using ilog2_bounds[OF assms] by (simp add: divide_right_mono)
  finally show ?thesis .
qed

lemma fl_err: "\<bar>fl x - x\<bar> \<le> \<bar>x\<bar> / 2 ^ 53"
proof -
  consider "x = 0" | "0 < x" | "x < 0" by linarith
  then show ?thesis
  proof cases
    case 1 then show ?thesis by simp
  next
    case 2 then show ?thesis using fl_pos_err[of x] by (simp add: fl_pos_eq)
  next
    case 3
    then have "fl x - x = - (fl_pos (- x) - (- x))" by (simp add: fl_def)
    then have "\<bar>fl x - x\<bar> = \<bar>fl_pos (- x) - (- x)\<bar>" by (simp only: abs_minus_cancel)
    then show ?thesis using fl_pos_err[of "- x"] 3 by simp
  qed
qed

lemma fl_pos_exact:
  assumes "0 < x" "x * pow2 (52 - ilog2 x) = of_int m"
  shows "fl_pos x = x"
proof -
  have "fl_pos x = x * pow2 (52 - ilog2 x) * pow2 (- (52 - ilog2 x))"
    by (simp add: fl_pos_def Let_def assms(2))
  also have "\<dots> = x" by (rule pow2_cancel) simp
  finally show ?thesis .
qed


lemma fl_pos_repr:
  assumes "0 < k" "k \<le> 2 ^ 53"
  shows "fl_pos (of_int k * pow2 j) = of_int k * pow2 j"
proof -
  let ?x = "of_int k * pow2 j :: rat"
  have x: "0 < ?x" using assms(1) by simp
  note B = ilog2_bounds[OF x]
  define n where "n = 52 - ilog2 ?x + j"
  have y: "?x * pow2 (52 - ilog2 ?x) = of_int k * pow2 n"
    unfolding n_def by (simp add: mult.assoc pow2_mult add.commute)
  have "?x \<le> pow2 53 * pow2 j"
    using assms(2) unfolding pow2_53 by (intro mult_right_mono) (simp_all add: less_imp_le)
  also have "\<dots> = pow2 (53 + j)" by (rule pow2_mult) simp
  finally have "pow2 (ilog2 ?x) < pow2 (53 + j + 1) "
    using B pow2_strict_mono[of "53 + j" "53 + j + 1"] by linarith
  then have "ilog2 ?x < 53 + j + 1" by (simp only: pow2_less_iff)
  then have n: "- 1 \<le> n" unfolding n_def by linarith
  have "\<exists>m. of_int k * pow2 n = (of_int m :: rat)"
  proof (cases "0 \<le> n")
    case True
    then have "of_int k * pow2 n = (of_int (k * 2 ^ nat n) :: rat)"
      by (simp add: pow2_def)
    then show ?thesis by blast
  next
    case False
    with n have n1: "n = - 1" by linarith
    then have e: "ilog2 ?x = 53 + j" unfolding n_def by linarith
    have "pow2 53 * pow2 j = pow2 (ilog2 ?x)" unfolding e by (rule pow2_mult) simp
    also have "\<dots> \<le> ?x" using B by simp
    finally have "pow2 53 \<le> of_int k" by simp
    then have "2 ^ 53 \<le> k" unfolding pow2_53 by (simp only: of_int_le_iff)
    with assms(2) have "k = 2 ^ 53" by linarith
    then have "of_int k * pow2 n = (of_int (2 ^ 52) :: rat)"
      unfolding n1 by (simp add: pow2_def)
    then show ?thesis by blast
  qed
  then obtain m where "?x * pow2 (52 - ilog2 ?x) = of_int m"
    using y by auto
  then show ?thesis by (rule fl_pos_exact[OF x])
qed

lemma fl_repr:
  assumes "\<bar>k\<bar> \<le> 2 ^ 53"
  shows "fl (of_int k * pow2 j) = of_int k * pow2 j"
proof -
  consider "k = 0" | "0 < k" | "k < 0" by linarith
  then show ?thesis
  proof cases
    case 1 then show ?thesis by simp
  next
    case 2
    then have "0 < (of_int k * pow2 j :: rat)" by simp
    then show ?thesis using fl_pos_repr[of k j] 2 assms by (simp add: fl_pos_eq)
  next
    case 3
    then have "0 < (of_int (- k) :: rat)" by simp
    then have pos: "0 < (of_int (- k) * pow2 j :: rat)"
      by (intro mult_pos_pos pow2_pos)
    have "fl_pos (of_int (- k) * pow2 j) = of_int (- k) * pow2 j"
      using fl_pos_repr[of "- k" j] 3 assms by simp
    then have "fl (of_int (- k) * pow2 j) = of_int (- k) * pow2 j"
      using pos by (simp only: fl_pos_eq)
    then show ?thesis using fl_minus[of "of_int k * pow2 j"] by simp
  qed
qed

lemma fl_of_int: "\<bar>k\<bar> \<le> 2 ^ 53 \<Longrightarrow> fl (of_int k) = of_int k"
  using fl_repr[of k 0] by simp

lemma fl_half: "\<bar>k\<bar> \<le> 2 ^ 53 \<Longrightarrow> fl (of_int k / 2) = of_int k / 2"
  using fl_repr[of k "- 1"] by (simp add: pow2_def)

lemma fl_1: "fl 1 = 1" and fl_2: "fl 2 = 2" and fl_100: "fl 100 = 100"
  using fl_of_int[of 1] fl_of_int[of 2] fl_of_int[of 100] by simp_all


lemma fl_lower: "0 \<le> x \<Longrightarrow> x - x / 2 ^ 53 \<le> fl x"
  and fl_upper: "0 \<le> x \<Longrightarrow> fl x \<le> x + x / 2 ^ 53"
proof -
  assume "0 \<le> x"
  then have "\<bar>x\<bar> = x" by simp
  with fl_err[of x] have "\<bar>fl x - x\<bar> \<le> x / 2 ^ 53" by (simp only:)
  then show "x - x / 2 ^ 53 \<le> fl x" "fl x \<le> x + x / 2 ^ 53" by linarith+
qed

section \<open>C1: the time estimate\<close>


lemma fmul_marks:
  assumes "\<bar>m\<bar> \<le> 2 ^ 51"
  shows "fmul (of_int m) (3/2) = of_int m * 3 / 2"
proof -
  have "\<bar>3 * m\<bar> \<le> 2 ^ 53" using assms by simp
  then have "fl (of_int (3 * m) / 2) = of_int (3 * m) / 2" by (rule fl_half)
  then show ?thesis by (simp add: fmul_def mult.commute)
qed

lemma ceil_fdiv_500:
  assumes "0 < n" "n < 2 ^ 53"
  shows "js_ceil (fdiv (of_int n) 500) = \<lceil>(of_int n :: rat) / 500\<rceil>"
proof -
  define x :: rat where "x = of_int n / 500"
  define k where "k = \<lceil>x\<rceil>"
  have xpos: "0 < x" using assms(1) by (simp add: x_def)
  have k: "of_int k - 1 < x" "x \<le> of_int k" unfolding k_def by linarith+
  have "(0::rat) < of_int k" using xpos k(2) by linarith
  then have kpos: "0 < k" by (simp only: of_int_0_less_iff)
  have "x \<le> of_int n" using assms(1) by (simp add: x_def)
  then have "k \<le> n" unfolding k_def by (simp add: ceiling_le)
  then have "\<bar>k\<bar> \<le> 2 ^ 53" using kpos assms(2) by simp
  then have "fl (of_int k) = of_int k" by (rule fl_of_int)
  then have up: "fl x \<le> of_int k" using fl_mono[OF k(2)] by simp
  have "(of_int k - 1) * 500 < (of_int n :: rat)"
    using k(1) by (simp add: x_def)
  then have "(of_int ((k - 1) * 500) :: rat) < of_int n" by simp
  then have "(k - 1) * 500 < n" by (simp only: of_int_less_iff)
  then have c: "(k - 1) * 500 + 1 \<le> n" by simp
  have e: "x - x / 2 ^ 53 \<le> fl x"
    using xpos by (intro fl_lower) simp
  have "(k - 1) * 500 * 2 ^ 53 < n * (2 ^ 53 - 1)"
  proof -
    have "(k - 1) * 500 * 2 ^ 53 < ((k - 1) * 500 + 1) * (2 ^ 53 - 1)"
      using c assms(2) by (simp add: algebra_simps)
    also have "\<dots> \<le> n * (2 ^ 53 - 1)"
      using c by (intro mult_right_mono) simp_all
    finally show ?thesis .
  qed
  then have "(of_int ((k - 1) * 500 * 2 ^ 53) :: rat) < of_int (n * (2 ^ 53 - 1))"
    by (simp only: of_int_less_iff)
  then have "(of_int k - 1) * 500 * 2 ^ 53 < (of_int n :: rat) * (2 ^ 53 - 1)"
    by simp
  then have "of_int k - 1 < x - x / 2 ^ 53"
    by (simp add: x_def field_simps)
  with e have lo: "of_int k - 1 < fl x" by linarith
  have "\<lceil>fl x\<rceil> = k" using up lo by (simp add: ceiling_unique)
  then show ?thesis by (simp add: js_ceil_def fdiv_def x_def k_def)
qed


lemma studyTime_fold_fst:
  "fst (fold (studyTimeStep tz now) events (a, b, c)) = a + sum_list (map calculateEventDuration events)"
  by (induction events arbitrary: a b c) (simp_all add: studyTimeStep_def Let_def)

text \<open>
  C1 as stated fails where the count is known and zero: the test
  \<^verbatim>\<open>event.quiz_total_questions\<close> of the source is false for 0, so a \<open>quiz_complete\<close>
  event with a question count of 0 falls through to the general rule and contributes 1
  minute, not 0.
\<close>

theorem C1_counterexample:
  "action_type ((plainEvent quiz_complete 0)\<lparr>quiz_total_questions := Some 0\<rparr>) = quiz_complete
   \<and> quiz_total_questions ((plainEvent quiz_complete 0)\<lparr>quiz_total_questions := Some 0\<rparr>) = Some 0
   \<and> calculateEventDuration ((plainEvent quiz_complete 0)\<lparr>quiz_total_questions := Some 0\<rparr>) = 1"
  by (simp add: plainEvent_def calculateEventDuration_def truthy_def)

text \<open>
  C1 (amended): a \<open>quiz_complete\<close> event with a known, non-zero question count
  contributes exactly that count; an \<open>exam_complete\<close> event with a known, non-zero
  total-marks value (of magnitude at most \<open>2^51\<close>) contributes \<open>ceil(totalMarks * 1.5)\<close>;
  every other event (with a text length below \<open>2^53\<close>) contributes 1, plus
  \<open>ceil(textLength / 500)\<close> when \<open>textLength > 0\<close>, plus 2 when the action type is
  \<open>quiz\<close>; and \<open>totalTimeMinutes\<close> is the sum of the contributions of all events.
\<close>

theorem C1_event_duration:
  "(action_type e = quiz_complete \<and> quiz_total_questions e = Some q \<and> q \<noteq> 0
      \<longrightarrow> calculateEventDuration e = q)
   \<and> (action_type e = exam_complete \<and> exam_total_marks e = Some m \<and> m \<noteq> 0 \<and> \<bar>m\<bar> \<le> 2 ^ 51
      \<longrightarrow> calculateEventDuration e = \<lceil>(of_int m :: rat) * 3 / 2\<rceil>)
   \<and> ((action_type e \<noteq> quiz_complete \<or> quiz_total_questions e = None \<or> quiz_total_questions e = Some 0)
      \<and> (action_type e \<noteq> exam_complete \<or> exam_total_marks e = None \<or> exam_total_marks e = Some 0)
      \<and> text_length e < 2 ^ 53
      \<longrightarrow> calculateEventDuration e
           = 1 + (if text_length e > 0 then \<lceil>(of_int (text_length e) :: rat) / 500\<rceil> else 0)
               + (if action_type e = quiz then 2 else 0))
   \<and> totalTimeMinutes (getUserStats tz now events) = sum_list (map calculateEventDuration events)"
proof (intro conjI impI)
  assume "action_type e = quiz_complete \<and> quiz_total_questions e = Some q \<and> q \<noteq> 0"
  then show "calculateEventDuration e = q"
    by (simp add: calculateEventDuration_def truthy_def orZero_def)
next
  assume "action_type e = exam_complete \<and> exam_total_marks e = Some m \<and> m \<noteq> 0 \<and> \<bar>m\<bar> \<le> 2 ^ 51"
  then show "calculateEventDuration e = \<lceil>(of_int m :: rat) * 3 / 2\<rceil>"
    by (simp add: calculateEventDuration_def truthy_def orZero_def fmul_marks js_ceil_def)
next
  assume a: "(action_type e \<noteq> quiz_complete \<or> quiz_total_questions e = None \<or> quiz_total_questions e = Some 0)
      \<and> (action_type e \<noteq> exam_complete \<or> exam_total_marks e = None \<or> exam_total_marks e = Some 0)
      \<and> text_length e < 2 ^ 53"
  then have 1: "\<not> (action_type e = quiz_complete \<and> truthy (quiz_total_questions e))"
    and 2: "\<not> (action_type e = exam_complete \<and> truthy (exam_total_marks e))"
    by (auto simp: truthy_def)
  have 3: "0 < text_length e \<Longrightarrow>
      js_ceil (fdiv (of_int (text_length e)) 500) = \<lceil>(of_int (text_length e) :: rat) / 500\<rceil>"
    using a by (intro ceil_fdiv_500) simp_all
  show "calculateEventDuration e
           = 1 + (if text_length e > 0 then \<lceil>(of_int (text_length e) :: rat) / 500\<rceil> else 0)
               + (if action_type e = quiz then 2 else 0)"
    using 1 2 3 by (auto simp: calculateEventDuration_def Let_def)
next
  show "totalTimeMinutes (getUserStats tz now events) = sum_list (map calculateEventDuration events)"
    by (simp add: getUserStats_def studyTime_def studyTime_fold_fst)
qed

text \<open>C1, witness: one event for each of the three rules, and a log of two events.\<close>

theorem C1_event_duration_witness:
  "calculateEventDuration ((plainEvent quiz_complete 0)\<lparr>quiz_total_questions := Some 7\<rparr>) = 7
   \<and> calculateEventDuration ((plainEvent exam_complete 0)\<lparr>exam_total_marks := Some 25\<rparr>) = 38
   \<and> calculateEventDuration ((plainEvent quiz 0)\<lparr>text_length := 1001\<rparr>) = 6
   \<and> totalTimeMinutes (getUserStats (fixedZone 0) 0 [plainEvent chat 0, plainEvent chat 5]) = 2"
proof -
  have 1: "calculateEventDuration ((plainEvent quiz_complete 0)\<lparr>quiz_total_questions := Some 7\<rparr>) = 7"
    using C1_event_duration[of "(plainEvent quiz_complete 0)\<lparr>quiz_total_questions := Some 7\<rparr>" 7]
    by (simp add: plainEvent_def)
  have 2: "calculateEventDuration ((plainEvent exam_complete 0)\<lparr>exam_total_marks := Some 25\<rparr>) = 38"
    using C1_event_duration[of "(plainEvent exam_complete 0)\<lparr>exam_total_marks := Some 25\<rparr>" _ 25]
    by (simp add: plainEvent_def ceiling_unique)
  have 3: "calculateEventDuration ((plainEvent quiz 0)\<lparr>text_length := 1001\<rparr>) = 6"
    using C1_event_duration[of "(plainEvent quiz 0)\<lparr>text_length := 1001\<rparr>"]
    by (simp add: plainEvent_def ceiling_unique)
  have 4: "totalTimeMinutes (getUserStats (fixedZone 0) 0 [plainEvent chat 0, plainEvent chat 5]) = 2"
    using C1_event_duration[of "plainEvent chat 0" _ _ "fixedZone 0" 0 "[plainEvent chat 0, plainEvent chat 5]"]
      C1_event_duration[of "plainEvent chat 5"]
    by (simp add: plainEvent_def)
  from 1 2 3 4 show ?thesis by simp
qed

section \<open>C2: the longest streak\<close>

lemma set_addAll: "set (addAll seen xs) = set seen \<union> set xs"
  by (induction xs arbitrary: seen) auto

lemma distinct_addAll: "distinct seen \<Longrightarrow> distinct (addAll seen xs)"
  by (induction xs arbitrary: seen) auto

lemma setFrom_props: "set (setFrom xs) = set xs" "distinct (setFrom xs)"
  by (simp_all add: setFrom_def set_addAll distinct_addAll)

lemma fixedZone_regular: "regularZone (fixedZone c)"
  by (simp add: regularZone_def fixedZone_def msPerDay_def algebra_simps)

lemma usEastern2026_regular: "regularZone usEastern2026"
  by (simp add: regularZone_def usEastern2026_def msPerDay_def algebra_simps)

lemma fixedZone_midnight: "toDateString (fixedZone c) (dateGetTime (fixedZone c) d) = d"
  by (simp add: toDateString_def dateGetTime_def fixedZone_def msPerDay_def)

lemma usEastern2026_midnight: "toDateString usEastern2026 (dateGetTime usEastern2026 d) = d"
proof -
  consider "d \<le> 20520" | "20520 < d" "d \<le> 20758" | "20758 < d" by linarith
  then show ?thesis
    by cases (simp_all add: toDateString_def dateGetTime_def usEastern2026_def msPerDay_def)
qed

lemma midnight_gap:
  assumes "regularZone tz"
  shows "23 * 3600000 * int k \<le> midnightOf tz (a + int k) - midnightOf tz a
       \<and> midnightOf tz (a + int k) - midnightOf tz a \<le> 25 * 3600000 * int k"
proof (induction k)
  case 0
  then show ?case by simp
next
  case (Suc k)
  have "23 * 3600000 \<le> midnightOf tz (a + int k + 1) - midnightOf tz (a + int k)
      \<and> midnightOf tz (a + int k + 1) - midnightOf tz (a + int k) \<le> 25 * 3600000"
    using assms unfolding regularZone_def by blast
  moreover have "a + int (Suc k) = a + int k + 1" by simp
  ultimately show ?case using Suc by (simp only:) (simp add: algebra_simps)
qed

lemma midnight_less:
  assumes "regularZone tz" "a < b"
  shows "midnightOf tz a < midnightOf tz b"
proof -
  define k where "k = nat (b - a)"
  have b: "b = a + int k" and k: "1 \<le> int k" using assms(2) by (simp_all add: k_def)
  have "23 * 3600000 * int k \<le> midnightOf tz (a + int k) - midnightOf tz a"
    using midnight_gap[OF assms(1)] by blast
  then show ?thesis using k unfolding b by simp
qed

lemma dateGetTime_le_iff:
  assumes "regularZone tz"
  shows "dateGetTime tz a \<le> dateGetTime tz b \<longleftrightarrow> a \<le> b"
  using midnight_less[OF assms, of a b] midnight_less[OF assms, of b a]
  by (cases a b rule: linorder_cases) (simp_all add: dateGetTime_def)

lemma uniqueDates_spec:
  assumes "regularZone tz"
  shows "uniqueDates_of tz events = spec_sortedDays tz events"
proof -
  let ?ys = "setFrom (map (eventDay tz) events)"
  let ?us = "sort_key (dateGetTime tz) ?ys"
  have "sorted (map (dateGetTime tz) ?us)" by (rule sorted_sort_key)
  then have s: "sorted ?us"
    by (simp add: sorted_map dateGetTime_le_iff[OF assms])
  have d: "distinct ?us" by (simp add: setFrom_props)
  have e: "set ?us = activeDays tz events"
    by (simp add: setFrom_props activeDays_def)
  have "?us = sorted_list_of_set (activeDays tz events)"
    using s d e by (intro sorted_distinct_set_unique) (simp_all add: activeDays_def)
  then show ?thesis
    by (simp add: uniqueDates_of_def spec_sortedDays_def Let_def)
qed

lemma fl_3_2: "fl (3/2) = 3/2" and fl_15_8: "fl (15/8) = 15/8"
  using fl_half[of 3] fl_repr[of 15 "- 3"] by (simp_all add: pow2_def)

lemma diffDays_within:
  assumes "regularZone tz"
  shows "diffDays tz a b \<le> 3/2 \<longleftrightarrow> withinTolerance a b"
proof -
  define x :: rat where "x = of_int (midnightOf tz b - midnightOf tz a) / 86400000"
  have dd: "diffDays tz a b = fl x"
    by (simp add: diffDays_def fdiv_def dateGetTime_def x_def)
  consider "b \<le> a" | "b = a + 1" | "a + 2 \<le> b" by linarith
  then show ?thesis
  proof cases
    case 1
    then have "midnightOf tz b \<le> midnightOf tz a"
      using midnight_less[OF assms, of b a] by (cases "b = a") simp_all
    then have "x \<le> 0" by (simp add: x_def)
    then have "fl x \<le> fl 0" by (rule fl_mono)
    then have "fl x \<le> 3/2" by simp
    moreover have "withinTolerance a b" using 1 by (simp add: withinTolerance_def)
    ultimately show ?thesis by (simp only: dd)
  next
    case 2
    have "midnightOf tz (a + 1) - midnightOf tz a \<le> 25 * 3600000"
      using assms unfolding regularZone_def by blast
    then have "(of_int (midnightOf tz b - midnightOf tz a) :: rat) \<le> of_int (25 * 3600000)"
      unfolding 2 by (simp only: of_int_le_iff)
    then have "x \<le> 3/2" by (simp add: x_def)
    then have "fl x \<le> fl (3/2)" by (rule fl_mono)
    then have "fl x \<le> 3/2" by (simp only: fl_3_2)
    moreover have "withinTolerance a b" using 2 by (simp add: withinTolerance_def)
    ultimately show ?thesis by (simp only: dd)
  next
    case 3
    define k where "k = nat (b - a)"
    have b: "b = a + int k" and k: "2 \<le> int k" using 3 by (simp_all add: k_def)
    have "23 * 3600000 * int k \<le> midnightOf tz (a + int k) - midnightOf tz a"
      using midnight_gap[OF assms] by blast
    then have "46 * 3600000 \<le> midnightOf tz b - midnightOf tz a"
      using k unfolding b by simp
    then have "(of_int (46 * 3600000) :: rat) \<le> of_int (midnightOf tz b - midnightOf tz a)"
      by (simp only: of_int_le_iff)
    then have "15/8 \<le> x" by (simp add: x_def)
    then have "fl (15/8) \<le> fl x" by (rule fl_mono)
    then have "\<not> fl x \<le> 3/2" by (simp add: fl_15_8)
    moreover have "\<not> withinTolerance a b"
    proof -
      have "(2::rat) \<le> of_int (b - a)" using 3 by simp
      then show ?thesis unfolding withinTolerance_def by linarith
    qed
    ultimately show ?thesis by (simp only: dd)
  qed
qed

lemma longestLoop_scan:
  "regularZone tz \<Longrightarrow> 0 < i \<Longrightarrow> i \<le> length ds \<Longrightarrow>
   snd (longestLoop tz ds i (t, l)) = spec_scan (ds ! (i - 1)) t l (drop i ds)"
proof (induction tz ds i "(t, l)" arbitrary: t l rule: longestLoop.induct)
  case (1 tz ds i t l)
  note reg = 1(2) and ipos = 1(3) and ile = 1(4)
  show ?case
  proof (cases "i < length ds")
    case False
    with ile have "i = length ds" by simp
    then show ?thesis by (simp add: longestLoop.simps[of tz ds "length ds"])
  next
    case True
    define t' where "t' = (if withinTolerance (ds ! (i - 1)) (ds ! i) then t + 1 else 1)"
    define l' where "l' = (if t' > l then t' else l)"
    have step: "longestLoop tz ds i (t, l) = longestLoop tz ds (i + 1) (t', l')"
      using True ipos
      by (subst longestLoop.simps) (simp only: diffDays_within[OF reg] Let_def t'_def l'_def, simp)
    have ih: "snd (longestLoop tz ds (i + 1) (t', l')) = spec_scan (ds ! i) t' l' (drop (i + 1) ds)"
      using 1(1)[OF True, of t' l'] True ipos reg
      by (simp only: diffDays_within[OF reg] Let_def t'_def l'_def, simp)
    have d: "drop i ds = ds ! i # drop (i + 1) ds"
      using True by (simp add: Cons_nth_drop_Suc)
    have m: "max l t' = l'" by (simp add: l'_def max_def)
    show ?thesis
      by (simp only: step ih d spec_scan.simps Let_def t'_def[symmetric] m)
  qed
qed

lemma longestLoop_start:
  "ds \<noteq> [] \<Longrightarrow> longestLoop tz ds 0 (0, 0) = longestLoop tz ds 1 (1, 1)"
  by (subst longestLoop.simps) (simp add: Let_def)

lemma longestStreak_spec:
  assumes "regularZone tz"
  shows "longestStreak_of tz events = spec_longestStreak tz events"
proof (cases "spec_sortedDays tz events")
  case Nil
  then show ?thesis
    by (simp add: longestStreak_of_def spec_longestStreak_def uniqueDates_spec[OF assms])
next
  case (Cons d ds)
  then have "snd (longestLoop tz (d # ds) 0 (0, 0)) = spec_scan d 1 1 ds"
    using longestLoop_scan[OF assms, of 1 "d # ds" 1 1] by (simp add: longestLoop_start)
  then show ?thesis
    by (simp add: longestStreak_of_def spec_longestStreak_def uniqueDates_spec[OF assms] Cons)
qed

lemma currentLoop_walk:
  assumes "regularZone tz"
  shows "i < length ds \<Longrightarrow> currentLoop tz ds i c = c - 1 + spec_walkBack (rev (take (Suc i) ds))"
proof (induction i arbitrary: c)
  case 0
  then show ?case
    by (subst currentLoop.simps) (simp add: take_Suc_conv_app_nth)
next
  case (Suc j)
  then have j: "j < length ds" by simp
  have r: "rev (take (Suc (Suc j)) ds) = ds ! Suc j # ds ! j # rev (take j ds)"
    using Suc.prems j by (simp add: take_Suc_conv_app_nth)
  have r': "rev (take (Suc j) ds) = ds ! j # rev (take j ds)"
    using j by (simp add: take_Suc_conv_app_nth)
  have "currentLoop tz ds (Suc j) c =
        (if withinTolerance (ds ! j) (ds ! Suc j) then currentLoop tz ds j (c + 1) else c)"
    by (subst currentLoop.simps) (simp only: diffDays_within[OF assms], simp)
  then show ?case
    by (simp add: Suc.IH[OF j] r r')
qed

lemma toDateString_fixed: "toDateString (fixedZone c) t = (t + c) div 86400000"
  by (simp add: toDateString_def fixedZone_def msPerDay_def)

lemma yesterday_fixed:
  "toDateString (fixedZone c) (now - 86400000) = toDateString (fixedZone c) now - 1"
proof -
  have "(now + c + (- 1) * 86400000) div 86400000 = - 1 + (now + c) div (86400000 :: int)"
    by (rule div_mult_self1) simp
  moreover have "now - 86400000 + c = now + c + (- 1) * 86400000" by simp
  ultimately show ?thesis by (simp only: toDateString_fixed)
qed

lemma last_sorted_Max:
  fixes xs :: "int list"
  shows "sorted xs \<Longrightarrow> xs \<noteq> [] \<Longrightarrow> last xs = Max (set xs)"
proof (induction xs)
  case Nil
  then show ?case by simp
next
  case (Cons x xs)
  show ?case
  proof (cases "xs = []")
    case True
    then show ?thesis by simp
  next
    case False
    with Cons have ih: "last xs = Max (set xs)" and le: "\<forall>y\<in>set xs. x \<le> y" by simp_all
    have "last xs \<in> set xs" using False by simp
    then have "x \<le> Max (set xs)" using le ih by auto
    then have "Max (insert x (set xs)) = Max (set xs)"
      using False by (simp add: max_def)
    then show ?thesis using False ih by simp
  qed
qed

lemma sortedDays_Nil_iff: "spec_sortedDays tz events = [] \<longleftrightarrow> activeDays tz events = {}"
  by (simp add: spec_sortedDays_def activeDays_def)

lemma sortedDays_last:
  assumes "activeDays tz events \<noteq> {}"
  shows "last (spec_sortedDays tz events) = Max (activeDays tz events)"
proof -
  have "spec_sortedDays tz events \<noteq> []"
    using assms by (simp add: sortedDays_Nil_iff)
  moreover have "sorted (spec_sortedDays tz events)"
    by (simp add: spec_sortedDays_def)
  moreover have "set (spec_sortedDays tz events) = activeDays tz events"
    by (simp add: spec_sortedDays_def activeDays_def)
  ultimately show ?thesis
    using last_sorted_Max[of "spec_sortedDays tz events"] by simp
qed

lemma sortedDays_explicit:
  assumes "activeDays tz events = set ds" "sorted ds" "distinct ds"
  shows "spec_sortedDays tz events = ds"
  by (simp add: assms sorted_list_of_set.idem_if_sorted_distinct spec_sortedDays_def)


lemma currentStreak_code:
  assumes "regularZone tz"
  shows "currentStreak_of tz now events =
     (if activeDays tz events = {} then 0
      else if Max (activeDays tz events) = toDateString tz now
              \<or> Max (activeDays tz events) = toDateString tz (now - 86400000)
           then spec_walkBack (rev (spec_sortedDays tz events))
           else 0)"
proof (cases "activeDays tz events = {}")
  case True
  then show ?thesis
    by (simp add: currentStreak_of_def uniqueDates_spec[OF assms] sortedDays_Nil_iff[symmetric])
next
  case False
  let ?ds = "spec_sortedDays tz events"
  have ne: "?ds \<noteq> []" using False by (simp add: sortedDays_Nil_iff)
  then have len: "length ?ds - Suc 0 < length ?ds" by simp
  have l: "?ds ! (length ?ds - Suc 0) = Max (activeDays tz events)"
    using ne sortedDays_last[OF False] by (simp add: last_conv_nth)
  have tk: "take (Suc (length ?ds - Suc 0)) ?ds = ?ds" using ne by simp
  have w: "currentLoop tz ?ds (length ?ds - Suc 0) 1 = spec_walkBack (rev ?ds)"
    using currentLoop_walk[OF assms len, of 1] by (simp add: tk)
  show ?thesis
    using False ne by (simp add: currentStreak_of_def uniqueDates_spec[OF assms] Let_def l w)
qed

lemma currentStreak_previous_day:
  assumes "regularZone tz" "toDateString tz (now - 86400000) = toDateString tz now - 1"
  shows "currentStreak_of tz now events =
     (if activeDays tz events = {} then 0
      else if Max (activeDays tz events) = toDateString tz now
              \<or> Max (activeDays tz events) = toDateString tz now - 1
           then spec_walkBack (rev (spec_sortedDays tz events))
           else 0)"
  by (simp only: currentStreak_code[OF assms(1)] assms(2))

lemma sortedDays_four:
  "activeDays tz events = {D, D + 1, D + 2, D + 4} \<Longrightarrow>
   spec_sortedDays tz events = [D, D + 1, D + 2, D + 4]"
  by (rule sortedDays_explicit) simp_all

text \<open>
  C2: in every zone whose consecutive local midnights are 23 to 25 hours apart (every
  zone with a constant offset, and the zones with daylight saving), \<open>longestStreak\<close> is
  the result of this computation: take the set of distinct calendar days with at least
  one event, sort it ascending, scan it with a running counter that is incremented when
  an entry differs from the previous one by at most 1.5 days and reset to 1 on a larger
  gap, and return the maximum the counter reached. For events on the days \<open>D\<close>, \<open>D+1\<close>,
  \<open>D+2\<close> and \<open>D+4\<close> with \<open>now\<close> on day \<open>D+4\<close>, \<open>longestStreak\<close> is 3.
\<close>

theorem C2_longest_streak:
  "regularZone tz \<longrightarrow>
     longestStreak (getUserStats tz now events) = spec_longestStreak tz events
   \<and> (activeDays tz events = {D, D + 1, D + 2, D + 4} \<and> toDateString tz now = D + 4
        \<longrightarrow> longestStreak (getUserStats tz now events) = 3)"
proof (intro conjI impI)
  assume reg: "regularZone tz"
  show eq: "longestStreak (getUserStats tz now events) = spec_longestStreak tz events"
    by (simp add: getUserStats_def longestStreak_spec[OF reg])
  assume "activeDays tz events = {D, D + 1, D + 2, D + 4} \<and> toDateString tz now = D + 4"
  then have "spec_sortedDays tz events = [D, D + 1, D + 2, D + 4]"
    by (simp add: sortedDays_four)
  then have "spec_longestStreak tz events = 3"
    by (simp add: spec_longestStreak_def withinTolerance_def)
  with eq show "longestStreak (getUserStats tz now events) = 3" by simp
qed

text \<open>
  C2, witness: four events on the days 10, 11, 12 and 14 (given out of order), read on
  day 14 in the zone UTC+05:30; and four events on 30 October, 31 October, 1 November and
  3 November 2026 (the days 20756, 20757, 20758 and 20760), read on 3 November in the
  zone \<open>usEastern2026\<close>, whose daylight saving time ends on 1 November.
\<close>

theorem C2_longest_streak_witness:
  "longestStreak (getUserStats (fixedZone 19800000) 1209600000
        [plainEvent chat 1036800000, plainEvent chat 864000000,
         plainEvent quiz 1209600000, plainEvent chat 950400000]) = 3
   \<and> longestStreak (getUserStats usEastern2026 1793721600000
        [plainEvent chat 1793548800000, plainEvent chat 1793376000000,
      plainEvent quiz 1793721600000, plainEvent chat 1793462400000]) = 3"
proof -
  let ?es = "[plainEvent chat 1036800000, plainEvent chat 864000000,
      plainEvent quiz 1209600000, plainEvent chat 950400000]"
  let ?fs = "[plainEvent chat 1793548800000, plainEvent chat 1793376000000,
      plainEvent quiz 1793721600000, plainEvent chat 1793462400000]"
  have a: "activeDays (fixedZone 19800000) ?es = {10, 10 + 1, 10 + 2, 10 + 4}"
    by (auto simp: activeDays_def eventDay_def toDateString_fixed plainEvent_def)
  have n: "toDateString (fixedZone 19800000) 1209600000 = 10 + 4"
    by (simp add: toDateString_fixed)
  have b: "activeDays usEastern2026 ?fs = {20756, 20756 + 1, 20756 + 2, 20756 + 4}"
    by (auto simp: activeDays_def eventDay_def toDateString_def usEastern2026_def msPerDay_def
        plainEvent_def)
  have m: "toDateString usEastern2026 1793721600000 = 20756 + 4"
    by (simp add: toDateString_def usEastern2026_def msPerDay_def)
  have 1: "longestStreak (getUserStats (fixedZone 19800000) 1209600000 ?es) = 3"
    using C2_longest_streak[of "fixedZone 19800000" 1209600000 ?es 10] fixedZone_regular a n
    by blast
  have 2: "longestStreak (getUserStats usEastern2026 1793721600000 ?fs) = 3"
    using C2_longest_streak[of usEastern2026 1793721600000 ?fs 20756] usEastern2026_regular b m
    by blast
  from 1 2 show ?thesis by (intro conjI)
qed

section \<open>C3: the current streak\<close>

text \<open>
  C3: the claim describes the intended rule, and the source departs from it where the
  offset of the zone changes. The source takes \<^verbatim>\<open>yesterday\<close> to be the calendar day of
  \<open>now - 24h\<close>, while the seven-day calendar of the same function steps back by calendar
  days. In the zone \<open>usEastern2026\<close>:
  \<^item> at 23:30 on Sunday 1 November 2026, a day of 25 hours, \<open>now - 24h\<close> is 00:30 of the
    same Sunday; with one event on Saturday 31 October the most recent active day (20757)
    is yesterday and the backward walk counts 1, but \<open>currentStreak\<close> is 0;
  \<^item> at 00:30 on Monday 9 March 2026, after a day of 23 hours, \<open>now - 24h\<close> is 23:30 of
    Saturday 7 March; with one event on that Saturday the most recent active day (20519)
    is neither today (20521) nor yesterday, but \<open>currentStreak\<close> is 1.
\<close>

theorem C3_yesterday_across_offset_change:
  "toDateString usEastern2026 1793593800000 = 20758
   \<and> activeDays usEastern2026 [plainEvent chat 1793462400000] = {20757}
   \<and> spec_walkBack (rev (spec_sortedDays usEastern2026 [plainEvent chat 1793462400000])) = 1
   \<and> currentStreak (getUserStats usEastern2026 1793593800000 [plainEvent chat 1793462400000]) = 0
   \<and> toDateString usEastern2026 1773030600000 = 20521
   \<and> activeDays usEastern2026 [plainEvent chat 1772902800000] = {20519}
   \<and> currentStreak (getUserStats usEastern2026 1773030600000 [plainEvent chat 1772902800000]) = 1"
proof -
  have t1: "toDateString usEastern2026 1793593800000 = 20758"
    and y1: "toDateString usEastern2026 1793507400000 = 20758"
    and t2: "toDateString usEastern2026 1773030600000 = 20521"
    and y2: "toDateString usEastern2026 1772944200000 = 20519"
    by (simp_all add: toDateString_def usEastern2026_def msPerDay_def)
  have a1: "activeDays usEastern2026 [plainEvent chat 1793462400000] = {20757}"
    and a2: "activeDays usEastern2026 [plainEvent chat 1772902800000] = {20519}"
    by (simp_all add: activeDays_def eventDay_def toDateString_def usEastern2026_def msPerDay_def
        plainEvent_def)
  have s1: "spec_sortedDays usEastern2026 [plainEvent chat 1793462400000] = [20757]"
    and s2: "spec_sortedDays usEastern2026 [plainEvent chat 1772902800000] = [20519]"
    by (simp_all add: spec_sortedDays_def a1 a2)
  have c1: "currentStreak (getUserStats usEastern2026 1793593800000 [plainEvent chat 1793462400000]) = 0"
    by (simp add: getUserStats_def currentStreak_code[OF usEastern2026_regular] a1 t1 y1)
  have c2: "currentStreak (getUserStats usEastern2026 1773030600000 [plainEvent chat 1772902800000]) = 1"
    by (simp add: getUserStats_def currentStreak_code[OF usEastern2026_regular] a2 t2 y2 s2)
  from t1 a1 s1 c1 t2 a2 c2 show ?thesis by simp
qed

section \<open>C4: quiz accuracy\<close>

lemma quizStep_fold:
  "fold quizStep qs (a, b) =
     (a + (\<Sum>e\<leftarrow>qs. orZero (quiz_total_questions e)), b + (\<Sum>e\<leftarrow>qs. orZero (quiz_correct_answers e)))"
  by (induction qs arbitrary: a b) (simp_all add: quizStep_def)

lemma quizTotals_sums: "quizTotals events = (quizSumTotal events, quizSumCorrect events)"
  by (simp add: quizTotals_def quizCompletions_def quizStep_fold quizSumTotal_def quizSumCorrect_def)

lemma percent_error:
  fixes v :: rat
  assumes "0 \<le> v"
  shows "\<bar>fmul (fl v) 100 - 100 * v\<bar> \<le> 300 * v / 2 ^ 53"
proof -
  define q where "q = fl v"
  define p where "p = fl (q * 100)"
  have q0: "0 \<le> q" unfolding q_def using assms by (rule fl_nonneg)
  have ql: "v - v / 2 ^ 53 \<le> q" and qu: "q \<le> v + v / 2 ^ 53"
    unfolding q_def using assms by (rule fl_lower, rule fl_upper)
  have q100: "0 \<le> q * 100" using q0 by simp
  have pl: "q * 100 - q * 100 / 2 ^ 53 \<le> p" and pu: "p \<le> q * 100 + q * 100 / 2 ^ 53"
    unfolding p_def using q100 by (rule fl_lower, rule fl_upper)
  have q2: "q \<le> 2 * v" using qu assms by (simp add: field_simps)
  have "p - 100 * v \<le> 300 * v / 2 ^ 53" using pu qu q2 by (simp add: field_simps)
  moreover have "- (300 * v / 2 ^ 53) \<le> p - 100 * v" using pl ql q2 by (simp add: field_simps)
  ultimately have "\<bar>p - 100 * v\<bar> \<le> 300 * v / 2 ^ 53" by linarith
  then show ?thesis by (simp add: p_def q_def fmul_def)
qed


lemma round_stable:
  fixes p v :: rat and t c :: int
  assumes t: "0 < t" and v: "v = of_int c / of_int t"
    and err: "\<bar>p - 100 * v\<bar> * (2 * of_int t) < 1"
    and tie: "frac (100 * v) \<noteq> 1/2"
  shows "\<lfloor>p + 1/2\<rfloor> = \<lfloor>100 * v + 1/2\<rfloor>"
proof -
  define m where "m = \<lfloor>100 * v + 1/2\<rfloor>"
  define N where "N = 200 * c + t"
  define d :: rat where "d = 2 * of_int t"
  have d: "0 < d" using t by (simp add: d_def)
  have dint: "d = of_int (2 * t)" by (simp add: d_def)
  have Nd: "(100 * v + 1/2) * d = of_int N"
    using t by (simp add: v d_def N_def field_simps)
  have m1: "of_int m \<le> 100 * v + 1/2" and m2: "100 * v + 1/2 < of_int m + 1"
    unfolding m_def by linarith+
  have md: "of_int m * d = of_int (m * (2 * t))"
    and md1: "(of_int m + 1) * d = of_int ((m + 1) * (2 * t))"
    and md2: "of_int m * d + 1 = of_int (m * (2 * t) + 1)"
    by (simp_all add: dint)
  have Nd1: "(100 * v + 1/2) * d + 1 = of_int (N + 1)"
    by (simp add: Nd)
  have "of_int m * d \<le> (100 * v + 1/2) * d"
    using m1 d by (simp only: mult_le_cancel_right_pos)
  then have "(of_int (m * (2 * t)) :: rat) \<le> of_int N"
    by (simp only: Nd md)
  then have lo: "m * (2 * t) \<le> N" by (simp only: of_int_le_iff)
  have "(100 * v + 1/2) * d < (of_int m + 1) * d"
    using m2 d by (simp only: mult_less_cancel_right_pos)
  then have "(of_int N :: rat) < of_int ((m + 1) * (2 * t))"
    by (simp only: Nd md1)
  then have hi: "N < (m + 1) * (2 * t)" by (simp only: of_int_less_iff)
  have ne: "N \<noteq> m * (2 * t)"
  proof
    assume "N = m * (2 * t)"
    then have "(100 * v + 1/2) * d = of_int m * d" by (simp only: Nd md)
    then have "100 * v + 1/2 = of_int m" using d by simp
    then have "100 * v = of_int (m - 1) + 1/2" by simp
    then have "frac (100 * v) = 1/2"
      by (simp only: frac_unique_iff) simp
    with tie show False by simp
  qed
  from lo ne have lo': "m * (2 * t) + 1 \<le> N" by linarith
  from hi have hi': "N + 1 \<le> (m + 1) * (2 * t)" by linarith
  have "(of_int (m * (2 * t) + 1) :: rat) \<le> of_int N" using lo' by (simp only: of_int_le_iff)
  then have L: "of_int m * d + 1 \<le> (100 * v + 1/2) * d"
    by (simp only: Nd md2)
  have "(of_int (N + 1) :: rat) \<le> of_int ((m + 1) * (2 * t))" using hi' by (simp only: of_int_le_iff)
  then have H: "(100 * v + 1/2) * d + 1 \<le> (of_int m + 1) * d"
    by (simp only: Nd1 md1)
  have "\<bar>(p - 100 * v) * d\<bar> = \<bar>p - 100 * v\<bar> * (2 * of_int t)"
    using t by (simp add: abs_mult d_def)
  with err have E: "\<bar>(p - 100 * v) * d\<bar> < 1" by simp
  have X: "(p + 1/2) * d = (100 * v + 1/2) * d + (p - 100 * v) * d"
    by (simp add: algebra_simps)
  have "of_int m * d < (p + 1/2) * d"
    unfolding X using L E by linarith
  then have 1: "of_int m < p + 1/2" using d by (simp only: mult_less_cancel_right_pos)
  have "(p + 1/2) * d < (of_int m + 1) * d"
    unfolding X using H E by linarith
  then have 2: "p + 1/2 < of_int m + 1" using d by (simp only: mult_less_cancel_right_pos)
  have "\<lfloor>p + 1/2\<rfloor> = m" using 1 2 by (intro floor_unique) simp_all
  then show ?thesis by (simp add: m_def)
qed


lemma quiz_error:
  assumes "0 < t" "0 \<le> c" "c \<le> 10 ^ 13"
  shows "\<bar>fmul (fdiv (of_int c) (of_int t)) 100 - 100 * (of_int c / of_int t)\<bar> * (2 * of_int t) < 1"
proof -
  define v :: rat where "v = of_int c / of_int t"
  have v0: "0 \<le> v" using assms by (simp add: v_def)
  have tpos: "(0::rat) < 2 * of_int t" using assms(1) by simp
  have "\<bar>fmul (fl v) 100 - 100 * v\<bar> * (2 * of_int t) \<le> 300 * v / 2 ^ 53 * (2 * of_int t)"
    using percent_error[OF v0] tpos by (simp only: mult_le_cancel_right_pos)
  also have "\<dots> = of_int (600 * c) / 2 ^ 53"
    using assms(1) by (simp add: v_def)
  also have "\<dots> < 1"
  proof -
    have "600 * c < 2 ^ 53" using assms(3) by simp
    then have "(of_int (600 * c) :: rat) < of_int (2 ^ 53)" by (simp only: of_int_less_iff)
    then show ?thesis by simp
  qed
  finally show ?thesis by (simp add: v_def fdiv_def)
qed

lemma quiz_round_exact:
  assumes "0 < t" "0 \<le> c" "c \<le> 10 ^ 13" "frac (100 * (of_int c / of_int t) :: rat) \<noteq> 1/2"
  shows "quizAccuracy_of (t, c) = spec_round (100 * (of_int c / of_int t))"
  using round_stable[OF assms(1) refl quiz_error[OF assms(1-3)] assms(4)] assms(1)
  by (simp add: quizAccuracy_of_def js_round_def spec_round_def)

lemma quiz_round_near:
  assumes "0 < t" "0 \<le> c" "c \<le> 10 ^ 13"
  shows "quizAccuracy_of (t, c) = spec_round (100 * (of_int c / of_int t))
       \<or> quizAccuracy_of (t, c) = spec_round (100 * (of_int c / of_int t)) - 1"
proof (cases "frac (100 * (of_int c / of_int t) :: rat) = 1/2")
  case False
  then show ?thesis using quiz_round_exact[OF assms] by simp
next
  case True
  define v :: rat where "v = of_int c / of_int t"
  define p where "p = fmul (fdiv (of_int c) (of_int t)) 100"
  define m where "m = \<lfloor>100 * v\<rfloor>"
  have v: "100 * v = of_int m + 1/2"
    using True unfolding v_def m_def frac_def by linarith
  have t1: "(1::rat) \<le> of_int t" using assms(1) by simp
  have "\<bar>p - 100 * v\<bar> * 2 \<le> \<bar>p - 100 * v\<bar> * (2 * of_int t)"
    using t1 by (simp add: mult_left_mono)
  also have "\<dots> < 1"
    using quiz_error[OF assms] by (simp add: p_def v_def)
  finally have e: "\<bar>p - 100 * v\<bar> < 1/2" by simp
  have s: "spec_round (100 * v) = m + 1"
    unfolding spec_round_def v by (intro floor_unique) simp_all
  have "of_int m < p" "p < of_int m + 1" using e v by linarith+
  then have "of_int m + 1/2 < p + 1/2" "p + 1/2 < of_int m + 3/2" by simp_all
  then have "\<lfloor>p + 1/2\<rfloor> = m \<or> \<lfloor>p + 1/2\<rfloor> = m + 1"
    by (cases "p + 1/2 < of_int m + 1") (auto intro!: floor_unique)
  moreover have "quizAccuracy_of (t, c) = \<lfloor>p + 1/2\<rfloor>"
    using assms(1) by (simp add: quizAccuracy_of_def js_round_def p_def)
  ultimately show ?thesis using s by (auto simp: v_def)
qed

lemma acc_15_10: "quizAccuracy_of (15, 10) = 67"
  by code_simp

lemma acc_40_23: "quizAccuracy_of (40, 23) = 57"
  by code_simp

lemma spec_40_23: "spec_round (100 * 23 / 40) = 58"
  by (simp add: spec_round_def floor_unique)


text \<open>
  C4 as stated fails: the source computes \<^verbatim>\<open>(totalQuizCorrect / totalQuizQuestions) * 100\<close>
  in double precision. For one \<open>quiz_complete\<close> event with 40 questions and 23 correct
  answers the quotient is the double just below 0.575 and the product is
  57.49999999999999, which \<^verbatim>\<open>Math.round\<close> takes to 57, while
  \<open>round(100 * 23 / 40) = round(57.5) = 58\<close>.
\<close>

theorem C4_counterexample:
  "quizAccuracy (getUserStats (fixedZone 0) 0
      [(plainEvent quiz_complete 0)\<lparr>quiz_total_questions := Some 40, quiz_correct_answers := Some 23\<rparr>]) = 57
   \<and> spec_round (100 * 23 / 40) = 58"
proof -
  have "quizTotals [(plainEvent quiz_complete 0)\<lparr>quiz_total_questions := Some 40,
      quiz_correct_answers := Some 23\<rparr>] = (40, 23)"
    by (simp add: quizTotals_sums quizSumTotal_def quizSumCorrect_def plainEvent_def orZero_def)
  then have "quizAccuracy (getUserStats (fixedZone 0) 0
      [(plainEvent quiz_complete 0)\<lparr>quiz_total_questions := Some 40, quiz_correct_answers := Some 23\<rparr>]) = 57"
    by (simp add: getUserStats_def acc_40_23)
  then show ?thesis using spec_40_23 by (intro conjI)
qed

text \<open>
  C4 (amended): with \<open>S_total\<close> and \<open>S_correct\<close> the sums of \<open>quizTotalQuestions\<close> and
  \<open>quizCorrectAnswers\<close> over all \<open>quiz_complete\<close> events (a missing field counting 0),
  \<open>quizAccuracy\<close> is 0 when \<open>S_total\<close> is 0 and otherwise \<^verbatim>\<open>Math.round\<close> of the product
  \<open>(S_correct / S_total) * 100\<close>, the quotient and the product each rounded to double
  precision. For \<open>0 \<le> S_correct \<le> 10^13\<close> this is \<open>round(100 * S_correct / S_total)\<close>
  whenever \<open>100 * S_correct / S_total\<close> is not exactly halfway between two integers, and
  that value or one less at such a tie. Two \<open>quiz_complete\<close> events with 5 questions and
  4 correct answers, and 10 questions and 6 correct answers, yield 67.
\<close>

theorem C4_quiz_accuracy:
  "quizAccuracy (getUserStats tz now events) =
     (if 0 < quizSumTotal events
      then js_round (fmul (fdiv (of_int (quizSumCorrect events)) (of_int (quizSumTotal events))) 100)
      else 0)
   \<and> (quizSumTotal events = 0 \<longrightarrow> quizAccuracy (getUserStats tz now events) = 0)
   \<and> (0 < quizSumTotal events \<and> 0 \<le> quizSumCorrect events \<and> quizSumCorrect events \<le> 10 ^ 13
        \<and> frac (100 * (of_int (quizSumCorrect events) / of_int (quizSumTotal events)) :: rat) \<noteq> 1/2
      \<longrightarrow> quizAccuracy (getUserStats tz now events)
           = spec_round (100 * (of_int (quizSumCorrect events) / of_int (quizSumTotal events))))
   \<and> (0 < quizSumTotal events \<and> 0 \<le> quizSumCorrect events \<and> quizSumCorrect events \<le> 10 ^ 13
      \<longrightarrow> quizAccuracy (getUserStats tz now events)
             = spec_round (100 * (of_int (quizSumCorrect events) / of_int (quizSumTotal events)))
          \<or> quizAccuracy (getUserStats tz now events)
             = spec_round (100 * (of_int (quizSumCorrect events) / of_int (quizSumTotal events))) - 1)
   \<and> (action_type a = quiz_complete \<and> quiz_total_questions a = Some 5 \<and> quiz_correct_answers a = Some 4
        \<and> action_type b = quiz_complete \<and> quiz_total_questions b = Some 10 \<and> quiz_correct_answers b = Some 6
      \<longrightarrow> quizAccuracy (getUserStats tz now [a, b]) = 67)"
proof -
  have q: "\<And>es. quizAccuracy (getUserStats tz now es) = quizAccuracy_of (quizSumTotal es, quizSumCorrect es)"
    by (simp add: getUserStats_def quizTotals_sums)
  have 1: "quizAccuracy (getUserStats tz now events) =
     (if 0 < quizSumTotal events
      then js_round (fmul (fdiv (of_int (quizSumCorrect events)) (of_int (quizSumTotal events))) 100)
      else 0)"
    by (simp add: q quizAccuracy_of_def)
  have 2: "quizSumTotal events = 0 \<longrightarrow> quizAccuracy (getUserStats tz now events) = 0"
    by (simp add: q quizAccuracy_of_def)
  have 3: "0 < quizSumTotal events \<and> 0 \<le> quizSumCorrect events \<and> quizSumCorrect events \<le> 10 ^ 13
        \<and> frac (100 * (of_int (quizSumCorrect events) / of_int (quizSumTotal events)) :: rat) \<noteq> 1/2
      \<longrightarrow> quizAccuracy (getUserStats tz now events)
           = spec_round (100 * (of_int (quizSumCorrect events) / of_int (quizSumTotal events)))"
    using quiz_round_exact[of "quizSumTotal events" "quizSumCorrect events"] by (simp only: q) blast
  have 4: "0 < quizSumTotal events \<and> 0 \<le> quizSumCorrect events \<and> quizSumCorrect events \<le> 10 ^ 13
      \<longrightarrow> quizAccuracy (getUserStats tz now events)
             = spec_round (100 * (of_int (quizSumCorrect events) / of_int (quizSumTotal events)))
          \<or> quizAccuracy (getUserStats tz now events)
             = spec_round (100 * (of_int (quizSumCorrect events) / of_int (quizSumTotal events))) - 1"
    using quiz_round_near[of "quizSumTotal events" "quizSumCorrect events"] by (simp only: q) blast
  have 5: "action_type a = quiz_complete \<and> quiz_total_questions a = Some 5 \<and> quiz_correct_answers a = Some 4
        \<and> action_type b = quiz_complete \<and> quiz_total_questions b = Some 10 \<and> quiz_correct_answers b = Some 6
      \<longrightarrow> quizAccuracy (getUserStats tz now [a, b]) = 67"
  proof
    assume h: "action_type a = quiz_complete \<and> quiz_total_questions a = Some 5 \<and> quiz_correct_answers a = Some 4
        \<and> action_type b = quiz_complete \<and> quiz_total_questions b = Some 10 \<and> quiz_correct_answers b = Some 6"
    then have "quizSumTotal [a, b] = 15" "quizSumCorrect [a, b] = 10"
      by (simp_all add: quizSumTotal_def quizSumCorrect_def orZero_def)
    then show "quizAccuracy (getUserStats tz now [a, b]) = 67"
      by (simp add: q acc_15_10)
  qed
  from 1 2 3 4 5 show ?thesis by (intro conjI)
qed


text \<open>
  C4, witness: the empty log; the two quizzes of the example (15 questions, 10 correct,
  not a tie); the quiz with 40 questions and 23 correct answers (a tie).
\<close>

theorem C4_quiz_accuracy_witness:
  "quizAccuracy (getUserStats (fixedZone 0) 0 []) = 0
   \<and> quizAccuracy (getUserStats (fixedZone 0) 0
        [(plainEvent quiz_complete 0)\<lparr>quiz_total_questions := Some 5, quiz_correct_answers := Some 4\<rparr>,
         (plainEvent quiz_complete 9)\<lparr>quiz_total_questions := Some 10, quiz_correct_answers := Some 6\<rparr>]) = 67
   \<and> spec_round (100 * (10 / 15)) = 67
   \<and> (quizAccuracy (getUserStats (fixedZone 0) 0
        [(plainEvent quiz_complete 0)\<lparr>quiz_total_questions := Some 40, quiz_correct_answers := Some 23\<rparr>]) = 58
      \<or> quizAccuracy (getUserStats (fixedZone 0) 0
        [(plainEvent quiz_complete 0)\<lparr>quiz_total_questions := Some 40, quiz_correct_answers := Some 23\<rparr>]) = 57)"
proof -
  let ?a = "(plainEvent quiz_complete 0)\<lparr>quiz_total_questions := Some 5, quiz_correct_answers := Some 4\<rparr>"
  let ?b = "(plainEvent quiz_complete 9)\<lparr>quiz_total_questions := Some 10, quiz_correct_answers := Some 6\<rparr>"
  let ?c = "(plainEvent quiz_complete 0)\<lparr>quiz_total_questions := Some 40, quiz_correct_answers := Some 23\<rparr>"
  have s0: "quizSumTotal [] = 0" by (simp add: quizSumTotal_def)
  have sab: "quizSumTotal [?a, ?b] = 15" "quizSumCorrect [?a, ?b] = 10"
    by (simp_all add: quizSumTotal_def quizSumCorrect_def orZero_def plainEvent_def)
  have sc: "quizSumTotal [?c] = 40" "quizSumCorrect [?c] = 23"
    by (simp_all add: quizSumTotal_def quizSumCorrect_def orZero_def plainEvent_def)
  have fr: "frac (100 * (of_int 10 / of_int 15) :: rat) \<noteq> 1/2"
  proof -
    have "\<lfloor>(200 / 3 :: rat)\<rfloor> = 66" by (intro floor_unique) simp_all
    then show ?thesis by (simp add: frac_def)
  qed
  have r67: "spec_round (100 * (10 / 15)) = 67"
    unfolding spec_round_def by (intro floor_unique) simp_all
  have r58: "spec_round (100 * (23 / 40)) = 58"
    unfolding spec_round_def by (intro floor_unique) simp_all
  have 1: "quizAccuracy (getUserStats (fixedZone 0) 0 []) = 0"
    using C4_quiz_accuracy[of "fixedZone 0" 0 "[]" ?a ?b, THEN conjunct2, THEN conjunct1] s0 by simp
  have 2: "quizAccuracy (getUserStats (fixedZone 0) 0 [?a, ?b]) = 67"
    using C4_quiz_accuracy[of "fixedZone 0" 0 "[?a, ?b]" ?a ?b, THEN conjunct2, THEN conjunct2, THEN conjunct1]
      sab fr r67 by simp
  have 3: "quizAccuracy (getUserStats (fixedZone 0) 0 [?c]) = 58 \<or> quizAccuracy (getUserStats (fixedZone 0) 0 [?c]) = 57"
    using C4_quiz_accuracy[of "fixedZone 0" 0 "[?c]" ?a ?b, THEN conjunct2, THEN conjunct2, THEN conjunct2, THEN conjunct1]
      sc r58 by simp
  have 4: "quizAccuracy (getUserStats (fixedZone 0) 0 [?a, ?b]) = 67"
    using C4_quiz_accuracy[of "fixedZone 0" 0 "[]" ?a ?b, THEN conjunct2, THEN conjunct2, THEN conjunct2, THEN conjunct2]
    by (simp add: plainEvent_def)
  from 1 2 3 4 r67 show ?thesis by simp
qed

section \<open>C5: the range of the accuracies\<close>

lemma percent_range:
  assumes "0 \<le> v" "v \<le> 1"
  shows "0 \<le> fmul (fl v) 100" "fmul (fl v) 100 \<le> 100"
proof -
  have q0: "0 \<le> fl v" using assms(1) by (rule fl_nonneg)
  have "fl v \<le> fl 1" using assms(2) by (rule fl_mono)
  then have q1: "fl v \<le> 1" by (simp add: fl_1)
  show "0 \<le> fmul (fl v) 100" unfolding fmul_def using q0 by (intro fl_nonneg) simp
  have "fl (fl v * 100) \<le> fl 100" using q1 by (intro fl_mono) simp
  then show "fmul (fl v) 100 \<le> 100" by (simp add: fmul_def fl_100)
qed

lemma round_range:
  assumes "0 \<le> x" "x \<le> 100"
  shows "0 \<le> js_round x" "js_round x \<le> 100"
proof -
  have "0 \<le> \<lfloor>x + 1/2\<rfloor>" using assms(1) by (simp add: le_floor_iff)
  then show "0 \<le> js_round x" by (simp add: js_round_def)
  have "x + 1/2 < of_int 101" using assms(2) by simp
  then have "\<lfloor>x + 1/2\<rfloor> < 101" by (simp only: floor_less_iff)
  then show "js_round x \<le> 100" by (simp add: js_round_def)
qed

lemma quizAccuracy_range:
  assumes "0 \<le> c" "c \<le> t"
  shows "0 \<le> quizAccuracy_of (t, c) \<and> quizAccuracy_of (t, c) \<le> 100"
proof (cases "0 < t")
  case False
  then show ?thesis by (simp add: quizAccuracy_of_def)
next
  case True
  have v: "0 \<le> (of_int c / of_int t :: rat)" "(of_int c / of_int t :: rat) \<le> 1"
    using assms True by simp_all
  note P = percent_range[OF v]
  show ?thesis
    using True round_range[OF P] by (simp add: quizAccuracy_of_def fdiv_def)
qed

lemma examAcc_range:
  assumes "examInRange e"
  shows "0 \<le> examAcc e \<and> examAcc e \<le> 100"
proof -
  define s t where "s = orZero (exam_score e)" and "t = orOne (exam_total_marks e)"
  have st: "0 \<le> s" "s \<le> t" using assms by (simp_all add: examInRange_def s_def t_def)
  have "t \<noteq> 0" by (simp add: t_def orOne_def split: option.splits)
  with st have t: "0 < t" by linarith
  have v: "0 \<le> (of_int s / of_int t :: rat)" "(of_int s / of_int t :: rat) \<le> 1"
    using st t by simp_all
  show ?thesis
    using percent_range[OF v] by (simp add: examAcc_def Let_def fdiv_def s_def t_def)
qed

lemma examStep_fold_range:
  assumes "\<forall>e\<in>set es. examInRange e" "0 \<le> b" "b \<le> of_int (100 * j)" "0 \<le> j"
    "j + int (length es) \<le> 2 ^ 46"
  shows "0 \<le> fst (snd (fold examStep es (a, b, c)))
       \<and> fst (snd (fold examStep es (a, b, c))) \<le> of_int (100 * (j + int (length es)))"
  using assms
proof (induction es arbitrary: a b c j)
  case Nil
  then show ?case by simp
next
  case (Cons e es)
  have r: "0 \<le> examAcc e" "examAcc e \<le> 100"
    using examAcc_range[of e] Cons.prems(1) by simp_all
  define b' where "b' = fadd b (examAcc e)"
  have b0: "0 \<le> b'" unfolding b'_def fadd_def using r(1) Cons.prems(2) by (intro fl_nonneg) simp
  have "b + examAcc e \<le> of_int (100 * (j + 1))" using r(2) Cons.prems(3) by simp
  then have "b' \<le> fl (of_int (100 * (j + 1)))" unfolding b'_def fadd_def by (rule fl_mono)
  moreover have "\<bar>100 * (j + 1)\<bar> \<le> 2 ^ 53" using Cons.prems(4,5) by simp
  ultimately have b1: "b' \<le> of_int (100 * (j + 1))" by (simp only: fl_of_int)
  obtain a' c' where st: "examStep e (a, b, c) = (a', b', c')"
    by (simp add: examStep_def Let_def b'_def)
  have "0 \<le> fst (snd (fold examStep es (a', b', c')))
       \<and> fst (snd (fold examStep es (a', b', c'))) \<le> of_int (100 * ((j + 1) + int (length es)))"
    using Cons.prems by (intro Cons.IH b0 b1) simp_all
  then show ?case by (simp add: st add.assoc add.commute)
qed

lemma examAverageAccuracy_range:
  assumes "\<forall>e\<in>set events. action_type e = exam_complete \<longrightarrow> examInRange e"
    "int (length (examCompletions events)) \<le> 2 ^ 46"
  shows "0 \<le> examAverageAccuracy_of events \<and> examAverageAccuracy_of events \<le> 100"
proof (cases "examCompletions events = []")
  case True
  then show ?thesis by (simp add: examAverageAccuracy_of_def)
next
  case False
  define n where "n = int (length (examCompletions events))"
  define S where "S = fst (snd (examTotals events))"
  have n: "0 < n" using False by (simp add: n_def)
  have "\<forall>e\<in>set (examCompletions events). examInRange e"
    using assms(1) by (simp add: examCompletions_def)
  then have "0 \<le> S \<and> S \<le> of_int (100 * (0 + n))"
    unfolding S_def examTotals_def n_def using assms(2)
    by (intro examStep_fold_range) simp_all
  then have S: "0 \<le> S" "S \<le> 100 * of_int n" by simp_all
  have x0: "0 \<le> S / of_int n" using S(1) n by simp
  have "S / of_int n \<le> 100" using S(2) n by (simp add: field_simps)
  then have "fl (S / of_int n) \<le> fl 100" by (rule fl_mono)
  then have x1: "fdiv S (of_int n) \<le> 100" by (simp add: fdiv_def fl_100)
  have x0': "0 \<le> fdiv S (of_int n)" unfolding fdiv_def using x0 by (rule fl_nonneg)
  show ?thesis
    using n round_range[OF x0' x1] by (simp add: examAverageAccuracy_of_def Let_def n_def S_def)
qed

lemma acc_5_10: "quizAccuracy_of (5, 10) = 200"
  by code_simp

lemma exam_30_20: "js_round (fdiv (fadd 0 (fmul (fdiv 30 20) 100)) 1) = 150"
  by code_simp


text \<open>
  C5 as stated fails: nothing in the source clamps the percentages. A \<open>quiz_complete\<close>
  event with 5 questions and 10 correct answers gives \<open>quizAccuracy = 200\<close>, and an
  \<open>exam_complete\<close> event with a score of 30 out of 20 marks gives
  \<open>examAverageAccuracy = 150\<close>; all four values are non-negative.
\<close>

theorem C5_counterexample:
  "quizAccuracy (getUserStats (fixedZone 0) 0
      [(plainEvent quiz_complete 0)\<lparr>quiz_total_questions := Some 5, quiz_correct_answers := Some 10\<rparr>]) = 200
   \<and> examAverageAccuracy (getUserStats (fixedZone 0) 0
      [(plainEvent exam_complete 0)\<lparr>exam_score := Some 30, exam_total_marks := Some 20\<rparr>]) = 150"
proof -
  have "quizTotals [(plainEvent quiz_complete 0)\<lparr>quiz_total_questions := Some 5,
      quiz_correct_answers := Some 10\<rparr>] = (5, 10)"
    by (simp add: quizTotals_sums quizSumTotal_def quizSumCorrect_def plainEvent_def orZero_def)
  then have 1: "quizAccuracy (getUserStats (fixedZone 0) 0
      [(plainEvent quiz_complete 0)\<lparr>quiz_total_questions := Some 5, quiz_correct_answers := Some 10\<rparr>]) = 200"
    by (simp add: getUserStats_def acc_5_10)
  have 2: "examAverageAccuracy (getUserStats (fixedZone 0) 0
      [(plainEvent exam_complete 0)\<lparr>exam_score := Some 30, exam_total_marks := Some 20\<rparr>]) = 150"
    by (simp add: getUserStats_def examAverageAccuracy_of_def examCompletions_def examTotals_def
        examStep_def examAcc_def orZero_def orOne_def plainEvent_def Let_def exam_30_20)
  from 1 2 show ?thesis by (intro conjI)
qed

text \<open>
  C5 (amended): \<open>quizAccuracy\<close> lies in \<open>[0, 100]\<close> whenever the summed correct answers
  are non-negative and do not exceed the summed question counts; \<open>examAverageAccuracy\<close>
  lies in \<open>[0, 100]\<close> whenever every \<open>exam_complete\<close> event has a score between 0 and its
  total marks (a missing score counting 0, a missing or zero total counting 1) and there
  are at most \<open>2^46\<close> such events. Both are computed by total functions: an absent or zero
  denominator yields a number, never an error.
\<close>

theorem C5_accuracy_range:
  "(0 \<le> quizSumCorrect events \<and> quizSumCorrect events \<le> quizSumTotal events
      \<longrightarrow> 0 \<le> quizAccuracy (getUserStats tz now events)
          \<and> quizAccuracy (getUserStats tz now events) \<le> 100)
   \<and> ((\<forall>e\<in>set events. action_type e = exam_complete \<longrightarrow> examInRange e)
        \<and> totalExamsTaken (getUserStats tz now events) \<le> 2 ^ 46
      \<longrightarrow> 0 \<le> examAverageAccuracy (getUserStats tz now events)
          \<and> examAverageAccuracy (getUserStats tz now events) \<le> 100)"
proof (intro conjI impI)
  assume a: "0 \<le> quizSumCorrect events \<and> quizSumCorrect events \<le> quizSumTotal events"
  have "quizAccuracy (getUserStats tz now events) = quizAccuracy_of (quizSumTotal events, quizSumCorrect events)"
    by (simp add: getUserStats_def quizTotals_sums)
  with a quizAccuracy_range[of "quizSumCorrect events" "quizSumTotal events"]
  show "0 \<le> quizAccuracy (getUserStats tz now events)"
    and "quizAccuracy (getUserStats tz now events) \<le> 100" by simp_all
next
  assume b: "(\<forall>e\<in>set events. action_type e = exam_complete \<longrightarrow> examInRange e)
        \<and> totalExamsTaken (getUserStats tz now events) \<le> 2 ^ 46"
  then have "int (length (examCompletions events)) \<le> 2 ^ 46"
    by (simp add: getUserStats_def)
  with b have "0 \<le> examAverageAccuracy_of events \<and> examAverageAccuracy_of events \<le> 100"
    by (intro examAverageAccuracy_range) simp_all
  then show "0 \<le> examAverageAccuracy (getUserStats tz now events)"
    and "examAverageAccuracy (getUserStats tz now events) \<le> 100"
    by (simp_all add: getUserStats_def)
qed

text \<open>
  C5, witness: a quiz with 40 questions and 23 correct answers, an exam with 18 of 20
  marks and an exam without a recorded score or total.
\<close>

theorem C5_accuracy_range_witness:
  "0 \<le> quizAccuracy (getUserStats (fixedZone 0) 0
       [(plainEvent quiz_complete 0)\<lparr>quiz_total_questions := Some 40, quiz_correct_answers := Some 23\<rparr>,
        (plainEvent exam_complete 1)\<lparr>exam_score := Some 18, exam_total_marks := Some 20\<rparr>,
        plainEvent exam_complete 2])
   \<and> quizAccuracy (getUserStats (fixedZone 0) 0
       [(plainEvent quiz_complete 0)\<lparr>quiz_total_questions := Some 40, quiz_correct_answers := Some 23\<rparr>,
        (plainEvent exam_complete 1)\<lparr>exam_score := Some 18, exam_total_marks := Some 20\<rparr>,
        plainEvent exam_complete 2]) \<le> 100
   \<and> 0 \<le> examAverageAccuracy (getUserStats (fixedZone 0) 0
       [(plainEvent quiz_complete 0)\<lparr>quiz_total_questions := Some 40, quiz_correct_answers := Some 23\<rparr>,
        (plainEvent exam_complete 1)\<lparr>exam_score := Some 18, exam_total_marks := Some 20\<rparr>,
        plainEvent exam_complete 2])
   \<and> examAverageAccuracy (getUserStats (fixedZone 0) 0
       [(plainEvent quiz_complete 0)\<lparr>quiz_total_questions := Some 40, quiz_correct_answers := Some 23\<rparr>,
        (plainEvent exam_complete 1)\<lparr>exam_score := Some 18, exam_total_marks := Some 20\<rparr>,
        plainEvent exam_complete 2]) \<le> 100"
proof -
  let ?es = "[(plainEvent quiz_complete 0)\<lparr>quiz_total_questions := Some 40, quiz_correct_answers := Some 23\<rparr>,
        (plainEvent exam_complete 1)\<lparr>exam_score := Some 18, exam_total_marks := Some 20\<rparr>,
        plainEvent exam_complete 2]"
  have q: "0 \<le> quizSumCorrect ?es \<and> quizSumCorrect ?es \<le> quizSumTotal ?es"
    by (simp add: quizSumTotal_def quizSumCorrect_def orZero_def plainEvent_def)
  have e: "\<forall>e\<in>set ?es. action_type e = exam_complete \<longrightarrow> examInRange e"
    by (simp add: examInRange_def orZero_def orOne_def plainEvent_def)
  have n: "totalExamsTaken (getUserStats (fixedZone 0) 0 ?es) \<le> 2 ^ 46"
    by (simp add: getUserStats_def examCompletions_def plainEvent_def)
  show ?thesis
    using C5_accuracy_range[of ?es "fixedZone 0" 0] q e n by blast
qed

section \<open>C6: sessions this week\<close>

text \<open>
  C6 as stated fails for an event dated after \<open>now\<close>: the source only tests
  \<^verbatim>\<open>timestamp > oneWeekAgo\<close>, so a \<open>create_session\<close> event one second ahead of the clock
  is counted although it lies outside the window that ends at \<open>now\<close>.
\<close>

theorem C6_counterexample:
  "sessionsThisWeek (getUserStats (fixedZone 0) 1000 [plainEvent create_session 2000]) = 1
   \<and> int (length (filter (spec_inTrailingWeek 1000) [plainEvent create_session 2000])) = 0"
  by (simp add: getUserStats_def sessionsThisWeek_of_def sessionCreates_def oneWeekAgo_def
      spec_inTrailingWeek_def plainEvent_def)

text \<open>
  C6 (amended): \<open>sessionsThisWeek\<close> is the number of \<open>create_session\<close> events whose
  timestamp is later than \<open>now - 7 * 24h\<close>; no upper bound is tested. For a log without
  events dated after \<open>now\<close> this is the number of \<open>create_session\<close> events with
  \<open>now - 7 * 24h < timestamp \<le> now\<close>.
\<close>

theorem C6_sessions_this_week:
  "sessionsThisWeek (getUserStats tz now events)
     = int (length (filter (\<lambda>e. action_type e = create_session
                                \<and> now - 7 * 24 * 3600 * 1000 < timestamp e) events))
   \<and> ((\<forall>e\<in>set events. timestamp e \<le> now)
      \<longrightarrow> sessionsThisWeek (getUserStats tz now events)
           = int (length (filter (spec_inTrailingWeek now) events)))"
proof (intro conjI impI)
  show 1: "sessionsThisWeek (getUserStats tz now events)
     = int (length (filter (\<lambda>e. action_type e = create_session
                                \<and> now - 7 * 24 * 3600 * 1000 < timestamp e) events))"
    by (simp add: getUserStats_def sessionsThisWeek_of_def sessionCreates_def oneWeekAgo_def
        conj_commute)
  assume "\<forall>e\<in>set events. timestamp e \<le> now"
  then have "filter (spec_inTrailingWeek now) events
      = filter (\<lambda>e. action_type e = create_session \<and> now - 7 * 24 * 3600 * 1000 < timestamp e) events"
    by (intro filter_cong) (auto simp: spec_inTrailingWeek_def)
  with 1 show "sessionsThisWeek (getUserStats tz now events)
           = int (length (filter (spec_inTrailingWeek now) events))"
    by simp
qed

text \<open>
  C6, witness: at \<open>now\<close> = 10 days, a session 9 days old (outside), a session 5 days old
  (inside) and a chat event.
\<close>

theorem C6_sessions_this_week_witness:
  "sessionsThisWeek (getUserStats (fixedZone 0) 864000000
        [plainEvent create_session 86400000, plainEvent create_session 432000000,
         plainEvent chat 500000000]) = 1
   \<and> int (length (filter (spec_inTrailingWeek 864000000)
        [plainEvent create_session 86400000, plainEvent create_session 432000000,
         plainEvent chat 500000000])) = 1"
proof -
  have h: "\<forall>e\<in>set [plainEvent create_session 86400000, plainEvent create_session 432000000,
               plainEvent chat 500000000]. timestamp e \<le> 864000000"
    by (simp add: plainEvent_def)
  show ?thesis
    using C6_sessions_this_week[of "fixedZone 0" 864000000 "[plainEvent create_session 86400000,
      plainEvent create_session 432000000, plainEvent chat 500000000]"] h
    by (simp add: spec_inTrailingWeek_def plainEvent_def)
qed

section \<open>C7: the empty log\<close>

text \<open>
  C7: for the empty event collection and any \<open>now\<close> the result has all session counts,
  time estimates, quiz and exam statistics and both accuracies equal to 0,
  \<open>currentStreak = 0\<close> and \<open>longestStreak = 0\<close>, a \<open>lastSevenDays\<close> calendar of 7 entries
  with \<open>studied = false\<close> on each, and an empty \<open>topTopics\<close> list. The computation is a
  total function, so it does not raise.
\<close>

theorem C7_empty_log:
  "totalSessions (getUserStats tz now []) = 0
   \<and> sessionsToday (getUserStats tz now []) = 0
   \<and> sessionsThisWeek (getUserStats tz now []) = 0
   \<and> sessionsThisMonth (getUserStats tz now []) = 0
   \<and> totalTimeMinutes (getUserStats tz now []) = 0
   \<and> studyTimeToday (getUserStats tz now []) = 0
   \<and> studyTimeThisWeek (getUserStats tz now []) = 0
   \<and> quizzesGenerated (getUserStats tz now []) = 0
   \<and> totalQuizzesTaken (getUserStats tz now []) = 0
   \<and> totalQuizQuestions (getUserStats tz now []) = 0
   \<and> totalQuizCorrect (getUserStats tz now []) = 0
   \<and> quizAccuracy (getUserStats tz now []) = 0
   \<and> totalExamsTaken (getUserStats tz now []) = 0
   \<and> examAverageAccuracy (getUserStats tz now []) = 0
   \<and> examAverageScore (getUserStats tz now []) = 0
   \<and> examBestScore (getUserStats tz now []) = 0
   \<and> currentStreak (getUserStats tz now []) = 0
   \<and> longestStreak (getUserStats tz now []) = 0
   \<and> length (lastSevenDays (getUserStats tz now [])) = 7
   \<and> map studied (lastSevenDays (getUserStats tz now [])) = replicate 7 False
   \<and> topTopics (getUserStats tz now []) = []"
  by (simp add: getUserStats_def sessionCreates_def sessionsToday_of_def sessionsThisWeek_of_def
      sessionsThisMonth_of_def studyTime_def quizCompletions_def quizTotals_def quizAccuracy_of_def
      examCompletions_def examTotals_def examAverageAccuracy_of_def examAverageScore_of_def
      currentStreak_of_def longestStreak_of_def uniqueDates_of_def setFrom_def
      lastSevenDays_of_def dayEntry_def Let_def topTopics_of_def topicCounts_def objectEntries_def
      numeral_eq_Suc)

section \<open>C8: the seven-day calendar\<close>




section \<open>C9: one more session today\<close>




section \<open>C10: the order of the top topics\<close>

lemma fold_concat_lists: "fold f (concat xss) s = fold (\<lambda>xs. fold f xs) xss s"
  by (induction xss arbitrary: s) simp_all

lemma fold_addKeyword:
  "fold addKeyword kws c = fold (\<lambda>k c. bump c k) (filter (\<lambda>k. k \<noteq> []) (map normKey kws)) c"
  by (induction kws arbitrary: c) (simp_all add: addKeyword_def Let_def)

lemma topicCounts_fold: "topicCounts events = fold (\<lambda>k c. bump c k) (allKeywords events) []"
proof -
  have "topicCounts events = fold (\<lambda>xs. fold addKeyword xs) (map topic_keywords events) []"
    by (simp add: topicCounts_def fold_map comp_def)
  also have "\<dots> = fold addKeyword (concat (map topic_keywords events)) []"
    by (simp only: fold_concat_lists)
  finally show ?thesis
    by (simp add: fold_addKeyword allKeywords_def)
qed

lemma firstSeen_snoc:
  "firstSeen (ks @ [k]) = (if k \<in> set ks then firstSeen ks else firstSeen ks @ [k])"
  by (simp add: firstSeen_def)

lemma firstSeen_props: "set (firstSeen ks) = set ks" "distinct (firstSeen ks)"
  by (simp_all add: firstSeen_def)

lemma bump_map:
  "distinct xs \<Longrightarrow>
   bump (map (\<lambda>x. (x, g x)) xs) k =
     (if k \<in> set xs then map (\<lambda>x. (x, if x = k then g x + 1 else g x)) xs
      else map (\<lambda>x. (x, g x)) xs @ [(k, 1)])"
  by (induction xs) auto

lemma counted_snoc: "bump (counted ks) k = counted (ks @ [k])"
proof (cases "k \<in> set ks")
  case True
  then show ?thesis
    by (simp add: counted_def bump_map firstSeen_props firstSeen_snoc)
next
  case False
  then show ?thesis
    by (auto simp: counted_def bump_map firstSeen_props firstSeen_snoc)
qed

lemma fold_bump_counted: "fold (\<lambda>k c. bump c k) ks [] = counted ks"
proof (induction ks rule: rev_induct)
  case Nil
  then show ?case by (simp add: counted_def firstSeen_def)
next
  case (snoc k ks)
  then show ?case by (simp add: counted_snoc)
qed

lemma insort_key_map_pair:
  "insort_key (\<lambda>p. f (fst p)) (x, g x) (map (\<lambda>k. (k, g k)) xs)
     = map (\<lambda>k. (k, g k)) (insort_key f x xs)"
  by (induction xs) simp_all

lemma sort_key_map_pair:
  "sort_key (\<lambda>p. f (fst p)) (map (\<lambda>k. (k, g k)) xs) = map (\<lambda>k. (k, g k)) (sort_key f xs)"
  by (induction xs) (simp_all add: insort_key_map_pair)

lemma objectEntries_map:
  "objectEntries (map (\<lambda>k. (k, g k)) xs)
     = map (\<lambda>k. (k, g k)) (sort_key digitsVal (filter isArrayIndex xs) @ filter (\<lambda>k. \<not> isArrayIndex k) xs)"
  by (simp add: objectEntries_def filter_map comp_def sort_key_map_pair)

lemma topTopics_enumerated:
  "topTopics_of events =
     take 5 (sort_key (\<lambda>a. - count a)
       (map (\<lambda>k. \<lparr>topic = k, count = int (count_list (allKeywords events) k)\<rparr>)
            (enumerated (allKeywords events))))"
  by (simp add: topTopics_of_def topicCounts_fold fold_bump_counted counted_def objectEntries_map
      enumerated_def toTopicEntry_def comp_def)

lemma enumerated_plain:
  assumes "\<forall>k\<in>set ks. \<not> isArrayIndex k"
  shows "enumerated ks = firstSeen ks"
proof -
  have "filter isArrayIndex (firstSeen ks) = []"
    using assms by (simp add: filter_empty_conv firstSeen_props)
  moreover have "filter (\<lambda>k. \<not> isArrayIndex k) (firstSeen ks) = firstSeen ks"
    using assms by (simp add: filter_id_conv firstSeen_props)
  ultimately show ?thesis by (simp add: enumerated_def)
qed


lemma ce1: "topTopics_of [(plainEvent chat 0)\<lparr>topic_keywords := [''react'', ''2024'']\<rparr>]
   = [\<lparr>topic = ''2024'', count = 1\<rparr>, \<lparr>topic = ''react'', count = 1\<rparr>]"
  by code_simp

lemma ce2: "spec_topTopics [(plainEvent chat 0)\<lparr>topic_keywords := [''react'', ''2024'']\<rparr>]
   = [\<lparr>topic = ''react'', count = 1\<rparr>, \<lparr>topic = ''2024'', count = 1\<rparr>]"
  by code_simp


text \<open>
  C10 as stated fails for a keyword that is the decimal numeral of an array index:
  \<^verbatim>\<open>Object.entries\<close> lists such keys before all others, whatever the order of their
  creation. With the keywords \<open>react\<close>, \<open>2024\<close> of one event, both counted once, the
  source returns \<open>2024\<close> before \<open>react\<close>; the first-seen order is \<open>react\<close>, \<open>2024\<close>.
\<close>

theorem C10_counterexample:
  "topTopics (getUserStats (fixedZone 0) 0 [(plainEvent chat 0)\<lparr>topic_keywords := [''react'', ''2024'']\<rparr>])
     = [\<lparr>topic = ''2024'', count = 1\<rparr>, \<lparr>topic = ''react'', count = 1\<rparr>]
   \<and> spec_topTopics [(plainEvent chat 0)\<lparr>topic_keywords := [''react'', ''2024'']\<rparr>]
     = [\<lparr>topic = ''react'', count = 1\<rparr>, \<lparr>topic = ''2024'', count = 1\<rparr>]"
proof -
  have "topTopics (getUserStats (fixedZone 0) 0 [(plainEvent chat 0)\<lparr>topic_keywords := [''react'', ''2024'']\<rparr>])
     = topTopics_of [(plainEvent chat 0)\<lparr>topic_keywords := [''react'', ''2024'']\<rparr>]"
    by (simp add: getUserStats_def)
  then show ?thesis using ce1 ce2 by (simp only:)
qed

text \<open>
  C10 (amended), for logs whose trimmed, lowercased keywords do not name a property
  inherited from \<^verbatim>\<open>Object.prototype\<close>: \<open>topTopics\<close> is the first (up to) 5 entries of the
  count-descending stable ordering of all distinct trimmed, lowercased, non-empty keywords
  with their counts, where the keywords are taken in the order in which the keys of an
  object are listed: the array-index numerals first, in ascending numeric order, then the
  others in first-seen order. When no keyword is an array-index numeral, keywords with
  equal counts therefore appear in first-seen order.
\<close>

theorem C10_top_topics_order:
  "(\<forall>k\<in>set (allKeywords events). ownKey k) \<longrightarrow>
     topTopics (getUserStats tz now events)
       = take 5 (sort_key (\<lambda>a. - count a)
           (map (\<lambda>k. \<lparr>topic = k, count = int (count_list (allKeywords events) k)\<rparr>)
                (enumerated (allKeywords events))))
     \<and> ((\<forall>k\<in>set (allKeywords events). \<not> isArrayIndex k)
        \<longrightarrow> topTopics (getUserStats tz now events) = spec_topTopics events)"
proof (intro impI conjI)
  show "topTopics (getUserStats tz now events)
       = take 5 (sort_key (\<lambda>a. - count a)
           (map (\<lambda>k. \<lparr>topic = k, count = int (count_list (allKeywords events) k)\<rparr>)
                (enumerated (allKeywords events))))"
    by (simp add: getUserStats_def topTopics_enumerated)
  assume "\<forall>k\<in>set (allKeywords events). \<not> isArrayIndex k"
  then have "enumerated (allKeywords events) = firstSeen (allKeywords events)"
    by (rule enumerated_plain)
  then show "topTopics (getUserStats tz now events) = spec_topTopics events"
    by (simp add: getUserStats_def topTopics_enumerated spec_topTopics_def spec_counted_def)
qed


text \<open>
  C10, witness: two events with the keywords \<open>React\<close> (with a trailing blank), \<open>go\<close> and
  \<open>react\<close>: \<open>react\<close> is counted twice, \<open>go\<close> once.
\<close>

theorem C10_top_topics_order_witness:
  "topTopics (getUserStats (fixedZone 0) 0
      [(plainEvent chat 0)\<lparr>topic_keywords := [''React '', ''go'']\<rparr>,
       (plainEvent chat 1)\<lparr>topic_keywords := [''react'']\<rparr>])
     = [\<lparr>topic = ''react'', count = 2\<rparr>, \<lparr>topic = ''go'', count = 1\<rparr>]"
proof -
  let ?es = "[(plainEvent chat 0)\<lparr>topic_keywords := [''React '', ''go'']\<rparr>,
       (plainEvent chat 1)\<lparr>topic_keywords := [''react'']\<rparr>]"
  have ak: "allKeywords ?es = [''react'', ''go'', ''react'']" by code_simp
  have ni: "\<not> isArrayIndex ''react''" "\<not> isArrayIndex ''go''" by code_simp+
  have h1: "\<forall>k\<in>set (allKeywords ?es). ownKey k" by (simp add: ak ownKey_def)
  have h2: "\<forall>k\<in>set (allKeywords ?es). \<not> isArrayIndex k" by (simp add: ak ni)
  have st: "spec_topTopics ?es = [\<lparr>topic = ''react'', count = 2\<rparr>, \<lparr>topic = ''go'', count = 1\<rparr>]"
    by code_simp
  from C10_top_topics_order[of ?es "fixedZone 0" 0] h1 h2
  have "topTopics (getUserStats (fixedZone 0) 0 ?es) = spec_topTopics ?es" by blast
  then show ?thesis by (simp only: st)
qed

end
